theory Spec2Isabelle
  imports Complex_Main
begin

section \<open>Python values used by the scraper\<close>

text \<open>
  Text is modelled as a HOL \<open>string\<close>: a list of 8-bit characters, compared by
  character code as Python 2 compares \<open>str\<close> objects. The euro sign of the price
  suffix is written as its three UTF-8 bytes. Text delivered by the page is taken to be
  ASCII (lxml hands such text over as \<open>str\<close>).
\<close>

datatype exn =
    AssertionError
  | WaitTimeoutError
  | AttributeError
  | IndexError
  | ValueError
  | TypeError
  | BusliniensucheParsingError exn

text \<open>Sequencing of a computation that may raise: the first exception wins.\<close>

definition and_then :: "exn + 'a \<Rightarrow> ('a \<Rightarrow> exn + 'b) \<Rightarrow> exn + 'b" where
  "and_then x f = (case x of Inl e \<Rightarrow> Inl e | Inr v \<Rightarrow> f v)"

text \<open>\<open>xs[0]\<close>: the first item, or \<open>IndexError\<close> on an empty list.\<close>

definition item0 :: "'a list \<Rightarrow> exn + 'a" where
  "item0 xs = (case xs of [] \<Rightarrow> Inl IndexError | x # _ \<Rightarrow> Inr x)"

text \<open>Comparison of two \<open>str\<close> objects with \<open><\<close>: lexicographic, by character code.\<close>

fun str_lt :: "string \<Rightarrow> string \<Rightarrow> bool" where
  "str_lt [] [] = False"
| "str_lt [] (y # ys) = True"
| "str_lt (x # xs) [] = False"
| "str_lt (x # xs) (y # ys) =
     (if (of_char x :: nat) < of_char y then True
      else if x = y then str_lt xs ys
      else False)"

text \<open>\<open>a >= b\<close> on strings.\<close>

definition str_ge :: "string \<Rightarrow> string \<Rightarrow> bool" where
  "str_ge a b = (\<not> str_lt a b)"

text \<open>The whitespace of \<open>str.split()\<close> and of \<open>float\<close>: space, tab, LF, VT, FF, CR.\<close>

definition is_space :: "char \<Rightarrow> bool" where
  "is_space c = ((of_char c :: nat) = 32 \<or> (9 \<le> (of_char c :: nat) \<and> (of_char c :: nat) \<le> 13))"

text \<open>\<open>s.split()\<close>: the maximal runs of non-whitespace characters, in order.\<close>

fun split_ws :: "string \<Rightarrow> string \<Rightarrow> string list" where
  "split_ws cur [] = (if cur = [] then [] else [cur])"
| "split_ws cur (c # cs) =
     (if is_space c then (if cur = [] then split_ws [] cs else cur # split_ws [] cs)
      else split_ws (cur @ [c]) cs)"

definition py_split :: "string \<Rightarrow> string list" where
  "py_split s = split_ws [] s"

text \<open>\<open>DELAY_MSG_REGEX.search(s)\<close> for a pattern without metacharacters: does the
  pattern occur somewhere in \<open>s\<close>?\<close>

fun starts_with :: "string \<Rightarrow> string \<Rightarrow> bool" where
  "starts_with [] s = True"
| "starts_with (p # ps) [] = False"
| "starts_with (p # ps) (c # cs) = (p = c \<and> starts_with ps cs)"

fun re_search :: "string \<Rightarrow> string \<Rightarrow> bool" where
  "re_search pat [] = starts_with pat []"
| "re_search pat (c # cs) = (starts_with pat (c # cs) \<or> re_search pat cs)"

definition DELAY_MSG_REGEX :: string where
  "DELAY_MSG_REGEX = ''Lade Busverbindungen''"

text \<open>\<open>COMMA_REGEX.sub('.', s)\<close>: every comma becomes a period.\<close>

definition comma_sub :: "string \<Rightarrow> string" where
  "comma_sub s = map (\<lambda>c. if c = CHR '','' then CHR ''.'' else c) s"

subsection \<open>Floating-point numbers\<close>

text \<open>
  A Python float is an IEEE 754 binary64 value. \<open>Finite sg m e\<close> is the number
  \<open>m * 2 ^ e\<close> with sign bit \<open>sg\<close> (so that a negative zero is kept).
\<close>

datatype pyfloat = Finite bool nat int | Infinity bool | NaN

definition is_digit :: "char \<Rightarrow> bool" where
  "is_digit c = (48 \<le> (of_char c :: nat) \<and> (of_char c :: nat) \<le> 57)"

definition digit_val :: "char \<Rightarrow> nat" where
  "digit_val c = of_char c - 48"

definition digit_char :: "nat \<Rightarrow> char" where
  "digit_char d = char_of (48 + d)"

text \<open>The value of a string of decimal digits.\<close>

definition digits_val :: "string \<Rightarrow> nat" where
  "digits_val ds = foldl (\<lambda>a c. 10 * a + digit_val c) 0 ds"

definition lower :: "char \<Rightarrow> char" where
  "lower c = (if 65 \<le> (of_char c :: nat) \<and> (of_char c :: nat) \<le> 90
              then char_of ((of_char c :: nat) + 32) else c)"

text \<open>The number of binary digits of a natural number.\<close>

fun bitlen :: "nat \<Rightarrow> nat" where
  "bitlen n = (if n = 0 then 0 else Suc (bitlen (n div 2)))"

declare bitlen.simps [simp del]

text \<open>\<open>ilog2 n d\<close> is the integer \<open>E\<close> with \<open>2 ^ E \<le> n / d < 2 ^ (E + 1)\<close>,
  for positive \<open>n\<close> and \<open>d\<close>.\<close>

definition ilog2 :: "nat \<Rightarrow> nat \<Rightarrow> int" where
  "ilog2 n d =
     (let k = int (bitlen n) - int (bitlen d)
      in if d * 2 ^ nat k \<le> n * 2 ^ nat (- k) then k else k - 1)"

text \<open>\<open>a / b\<close> rounded to the nearest natural number, a tie going to the even one.\<close>

definition rhe_div :: "nat \<Rightarrow> nat \<Rightarrow> nat" where
  "rhe_div a b =
     (let q = a div b; r = a mod b
      in if 2 * r < b then q
         else if b < 2 * r then q + 1
         else if even q then q else q + 1)"

text \<open>
  The binary64 value nearest to \<open>m * 10 ^ x\<close> (ties to even): 53 significant bits,
  the exponent of the last bit not below \<open>-1074\<close>, and infinity from \<open>2 ^ 1024\<close> on.
\<close>

definition round_double :: "bool \<Rightarrow> nat \<Rightarrow> int \<Rightarrow> pyfloat" where
  "round_double sg m x =
     (if m = 0 then Finite sg 0 0
      else
        let n = (if 0 \<le> x then m * 10 ^ nat x else m);
            d = (if 0 \<le> x then 1 else 10 ^ nat (- x));
            e = max (ilog2 n d - 52) (- 1074);
            mant = rhe_div (n * 2 ^ nat (- e)) (d * 2 ^ nat e)
        in if 2 ^ 1024 * 2 ^ nat (- e) \<le> mant * 2 ^ nat e then Infinity sg
           else Finite sg mant e)"

text \<open>An optional sign in front of a number.\<close>

definition take_sign :: "string \<Rightarrow> bool \<times> string" where
  "take_sign s =
     (case s of
        [] \<Rightarrow> (False, [])
      | c # cs \<Rightarrow> if c = CHR ''-'' then (True, cs)
                  else if c = CHR ''+'' then (False, cs)
                  else (False, s))"

text \<open>The exponent part of a decimal literal: empty, or \<open>e\<close>/\<open>E\<close>, an optional
  sign and at least one digit.\<close>

definition exponent_part :: "string \<Rightarrow> int option" where
  "exponent_part s =
     (case s of
        [] \<Rightarrow> Some 0
      | c # cs \<Rightarrow>
          if c = CHR ''e'' \<or> c = CHR ''E'' then
            (let (sg, ds) = take_sign cs
             in if ds \<noteq> [] \<and> list_all is_digit ds
                then Some (if sg then - int (digits_val ds) else int (digits_val ds))
                else None)
          else None)"

text \<open>
  \<open>float(s)\<close> on a \<open>str\<close>: surrounding whitespace is dropped; then an optional sign
  and either \<open>inf\<close>, \<open>infinity\<close> or \<open>nan\<close> in any letter case, or a decimal literal
  with at least one digit, an optional period and an optional exponent. Anything else
  raises \<open>ValueError\<close> (here \<open>None\<close>).
\<close>

definition py_float :: "string \<Rightarrow> pyfloat option" where
  "py_float s =
     (let t = rev (dropWhile is_space (rev (dropWhile is_space s)));
          (sg, body) = take_sign t;
          word = map lower body
      in if word = ''inf'' \<or> word = ''infinity'' then Some (Infinity sg)
         else if word = ''nan'' then Some NaN
         else
           let ip = takeWhile is_digit body;
               r1 = dropWhile is_digit body;
               fp = (case r1 of [] \<Rightarrow> [] | c # cs \<Rightarrow>
                       if c = CHR ''.'' then takeWhile is_digit cs else []);
               r2 = (case r1 of [] \<Rightarrow> [] | c # cs \<Rightarrow>
                       if c = CHR ''.'' then dropWhile is_digit cs else r1)
           in if ip = [] \<and> fp = [] then None
              else (case exponent_part r2 of
                      None \<Rightarrow> None
                    | Some x \<Rightarrow>
                        Some (round_double sg (digits_val (ip @ fp)) (x - int (length fp)))))"

text \<open>The decimal digits of a natural number, without leading zeros.\<close>

fun show_nat :: "nat \<Rightarrow> string" where
  "show_nat n = (if n < 10 then [digit_char n] else show_nat (n div 10) @ [digit_char (n mod 10)])"

declare show_nat.simps [simp del]

text \<open>
  \<open>"{0:.2f}".format(x)\<close>: the exact value of \<open>x\<close> rounded to hundredths (ties to
  even), printed with a minus sign when the sign bit is set, all integer digits, a
  period and two digits; \<open>inf\<close>, \<open>-inf\<close> and \<open>nan\<close> for the other values.
\<close>

definition format_2f :: "pyfloat \<Rightarrow> string" where
  "format_2f x =
     (case x of
        NaN \<Rightarrow> ''nan''
      | Infinity sg \<Rightarrow> (if sg then ''-inf'' else ''inf'')
      | Finite sg m e \<Rightarrow>
          (let h = rhe_div (m * 100 * 2 ^ nat e) (2 ^ nat (- e))
           in (if sg then ''-'' else '''') @ show_nat (h div 100) @ ''.'' @
              [digit_char (h mod 100 div 10), digit_char (h mod 10)]))"

text \<open>The suffix of the price: a space and the euro sign (U+20AC in UTF-8).\<close>

definition euro_suffix :: string where
  "euro_suffix = [CHR '' '', CHR 0xE2, CHR 0x82, CHR 0xAC]"

section \<open>The page: elements, CSS selection and XPath lookups\<close>

text \<open>
  An element of the parsed document, as lxml presents it: its tag, the tokens of its
  \<open>class\<close> attribute, its \<open>.text\<close> (the text before the first child; \<open>None\<close> when
  there is none) and its child elements in document order.
\<close>

datatype element =
  Element (tag: string) (classes: "string list") (el_text: "string option")
          (children: "element list")

text \<open>The element itself and all elements below it, in document order.\<close>

fun descendants_or_self :: "element \<Rightarrow> element list" where
  "descendants_or_self (Element t cl tx cs) =
     Element t cl tx cs # concat (map descendants_or_self cs)"

text \<open>\<open>doc.cssselect('t.c')\<close>: every element with tag \<open>t\<close> and class token \<open>c\<close>, in
  document order.\<close>

definition cssselect :: "string \<Rightarrow> string \<Rightarrow> element \<Rightarrow> element list" where
  "cssselect t c doc = filter (\<lambda>x. tag x = t \<and> c \<in> set (classes x)) (descendants_or_self doc)"

text \<open>
  One step of a relative location path on the child axis: \<open>Child t\<close> is the step
  \<open>t\<close> (all children with that tag), \<open>ChildAt t k\<close> is the step \<open>t[k]\<close> (the
  \<open>k\<close>-th of them, counted from 1).
\<close>

datatype step = Child string | ChildAt string nat

definition xpath_step :: "step \<Rightarrow> element \<Rightarrow> element list" where
  "xpath_step st e =
     (case st of
        Child t \<Rightarrow> filter (\<lambda>c. tag c = t) (children e)
      | ChildAt t k \<Rightarrow>
          (let cs = filter (\<lambda>c. tag c = t) (children e)
           in if 1 \<le> k \<and> k \<le> length cs then [cs ! (k - 1)] else []))"

text \<open>\<open>e.xpath(path)\<close>: the steps applied from left to right, each to every node
  selected so far.\<close>

fun xpath_from :: "step list \<Rightarrow> element list \<Rightarrow> element list" where
  "xpath_from [] ns = ns"
| "xpath_from (st # sts) ns = xpath_from sts (concat (map (xpath_step st) ns))"

definition xpath :: "step list \<Rightarrow> element \<Rightarrow> element list" where
  "xpath path e = xpath_from path [e]"

text \<open>The location paths of \<open>parse_result\<close>.\<close>

definition path_departure :: "step list" where
  \<comment> \<open>\<open>div[1]/div/div[1]/div[1]\<close>\<close>
  "path_departure = [ChildAt ''div'' 1, Child ''div'', ChildAt ''div'' 1, ChildAt ''div'' 1]"

definition path_duration :: "step list" where
  \<comment> \<open>\<open>div[1]/div/div[1]/div[2]\<close>\<close>
  "path_duration = [ChildAt ''div'' 1, Child ''div'', ChildAt ''div'' 1, ChildAt ''div'' 2]"

definition path_arrival :: "step list" where
  \<comment> \<open>\<open>div[1]/div/div[1]/div[3]\<close>\<close>
  "path_arrival = [ChildAt ''div'' 1, Child ''div'', ChildAt ''div'' 1, ChildAt ''div'' 3]"

definition path_date :: "step list" where
  \<comment> \<open>\<open>div[1]/span[1]\<close>\<close>
  "path_date = [ChildAt ''div'' 1, ChildAt ''span'' 1]"

definition path_time :: "step list" where
  \<comment> \<open>\<open>div[1]/span[3]\<close>\<close>
  "path_time = [ChildAt ''div'' 1, ChildAt ''span'' 3]"

definition path_stop :: "step list" where
  \<comment> \<open>\<open>div[2]/span\<close>\<close>
  "path_stop = [ChildAt ''div'' 2, Child ''span'']"

definition path_trip_duration :: "step list" where
  \<comment> \<open>\<open>div[1]\<close>\<close>
  "path_trip_duration = [ChildAt ''div'' 1]"

definition path_number_of_stops :: "step list" where
  \<comment> \<open>\<open>div[2]\<close>\<close>
  "path_number_of_stops = [ChildAt ''div'' 2]"

definition path_price :: "step list" where
  \<comment> \<open>\<open>div[1]/div/div[2]/div[2]/div[1]/span[2]/strong\<close>\<close>
  "path_price = [ChildAt ''div'' 1, Child ''div'', ChildAt ''div'' 2, ChildAt ''div'' 2,
                 ChildAt ''div'' 1, ChildAt ''span'' 2, Child ''strong'']"

definition path_company :: "step list" where
  \<comment> \<open>\<open>div[1]/div/div[2]/div[1]/div[1]/div[1]/span[2]\<close>\<close>
  "path_company = [ChildAt ''div'' 1, Child ''div'', ChildAt ''div'' 2, ChildAt ''div'' 1,
                   ChildAt ''div'' 1, ChildAt ''div'' 1, ChildAt ''span'' 2]"

section \<open>The browser session and the world around a call\<close>

text \<open>
  The calls the program makes on its collaborators, in the order it makes them: the
  browser session and its driver, the file system and the debugger. \<open>SessionClose\<close>
  stands for releasing the session; the other constructors are the calls found in the
  source. Writing to the log file is not recorded.
\<close>

datatype call =
    SessionNew
  | SetAttribute string bool
  | Visit string
  | AtCss string
  | SetValue string string
  | Click string
  | Document
  | Render string
  | OpenFile string
  | WriteFile string
  | SetTrace
  | SessionClose

text \<open>
  What a call of the pipeline cannot decide by itself: the selectors that match a node
  of the search page (\<open>at_css\<close> returns \<open>None\<close> for the others), the document the
  driver returns at its \<open>n\<close>-th \<open>document()\<close> call (counted from 0), the ISO date of
  today, and how many further probes of the ready predicate the clock allows within a
  timeout after the first one. The collaborators' own calls do not raise.
\<close>

record world =
  form :: "string \<Rightarrow> bool"
  snapshots :: "nat \<Rightarrow> element"
  today :: string
  probes :: "int \<Rightarrow> nat"

record session =
  calls :: "call list"
  ndocs :: nat

definition fresh :: session where
  "fresh = \<lparr>calls = [], ndocs = 0\<rparr>"

definition do_call :: "call \<Rightarrow> session \<Rightarrow> session" where
  "do_call c s = s\<lparr>calls := calls s @ [c]\<rparr>"

text \<open>\<open>session.driver.document()\<close>.\<close>

definition document :: "world \<Rightarrow> session \<Rightarrow> element \<times> session" where
  "document w s = (snapshots w (ndocs s), (do_call Document s)\<lparr>ndocs := Suc (ndocs s)\<rparr>)"

text \<open>The module's global names that the functions read.\<close>

record module_globals =
  DEBUG :: bool

definition module_init :: module_globals where
  "module_init = \<lparr>DEBUG = False\<rparr>"

definition SEARCH_PAGE :: string where
  "SEARCH_PAGE = ''https://www.busliniensuche.de/''"

section \<open>The program\<close>

record connection =
  departure_date :: "string option"
  departure_time :: "string option"
  departure_stop :: "string option"
  trip_duration :: "string option"
  number_of_stops :: "string option"
  arrival_date :: "string option"
  arrival_time :: "string option"
  arrival_stop :: "string option"
  price :: string
  company :: "string option"

definition create_browser_session :: "string \<Rightarrow> bool \<Rightarrow> session" where
  "create_browser_session url load_images =
     do_call (Visit url) (do_call (SetAttribute ''auto_load_images'' load_images)
       (do_call SessionNew fresh))"

text \<open>
  The ready predicate of \<open>get_results\<close>. Its value is \<open>Some True\<close>, \<open>Some False\<close> or
  \<open>None\<close> (falling off the end of the \<open>except\<close> branch). \<open>results[0]\<close> raises
  \<open>IndexError\<close> on an empty selection and the search raises \<open>TypeError\<close> on a text
  that is \<open>None\<close>; the bare \<open>except\<close> catches both.
\<close>

definition ready_body :: "element list \<Rightarrow> exn + bool" where
  "ready_body results =
     and_then (item0 results) (\<lambda>r.
       case el_text r of
         None \<Rightarrow> Inl TypeError
       | Some t \<Rightarrow> Inr (if re_search DELAY_MSG_REGEX t then False else True))"

definition results_are_ready :: "world \<Rightarrow> session \<Rightarrow> bool option \<times> session" where
  "results_are_ready w s =
     (let (doc, s1) = document w s;
          results = cssselect ''div'' ''search-result'' doc
      in case ready_body results of
           Inr b \<Rightarrow> (Some b, s1)
         | Inl e \<Rightarrow> (None, do_call (Render ''error.png'') s1))"

text \<open>Truth value of what the predicate returns.\<close>

definition truthy :: "bool option \<Rightarrow> bool" where
  "truthy r = (r = Some True)"

text \<open>
  Modelled from the spec: \<open>WaitMixin.wait_for(condition, interval, timeout)\<close> belongs
  to the browser library and is not among the sources. It polls the condition at the
  fixed interval until it returns a true value or the elapsed time exceeds the timeout:
  the condition is probed at least once; a true value is returned at once, and when the
  clock allows no further probe \<open>WaitTimeoutError\<close> is raised. The argument \<open>n\<close> is
  the number of probes left after the next one.
\<close>

fun wait_for :: "world \<Rightarrow> nat \<Rightarrow> session \<Rightarrow> (exn + bool option) \<times> session" where
  "wait_for w 0 s =
     (case results_are_ready w s of
        (res, s1) \<Rightarrow> if truthy res then (Inr res, s1) else (Inl WaitTimeoutError, s1))"
| "wait_for w (Suc n) s =
     (case results_are_ready w s of
        (res, s1) \<Rightarrow> if truthy res then (Inr res, s1) else wait_for w n s1)"

text \<open>\<open>field = session.at_css(sel); field.set(v)\<close> and the like fail with
  \<open>AttributeError\<close> when the selector matches nothing.\<close>

definition get_results ::
  "world \<Rightarrow> session \<Rightarrow> string \<Rightarrow> string \<Rightarrow> string \<Rightarrow> int \<Rightarrow> (exn + element list) \<times> session" where
  "get_results w s dep_stop arr_stop date timeout =
     (let s1 = do_call (AtCss ''#From'') s in
      if \<not> form w ''#From'' then (Inl AttributeError, s1) else
      let s2 = do_call (SetValue ''#From'' dep_stop) s1;
          s3 = do_call (AtCss ''#To'') s2 in
      if \<not> form w ''#To'' then (Inl AttributeError, s3) else
      let s4 = do_call (SetValue ''#To'' arr_stop) s3;
          s5 = do_call (AtCss ''#When'') s4;
          current_date = today w in
      if \<not> str_ge date current_date then (Inl AssertionError, s5) else
      if \<not> form w ''#When'' then (Inl AttributeError, s5) else
      let s6 = do_call (SetValue ''#When'' date) s5;
          s7 = do_call (AtCss ''.btn-warning'') s6 in
      if \<not> form w ''.btn-warning'' then (Inl AttributeError, s7) else
      let s8 = do_call (Click ''.btn-warning'') s7 in
      case wait_for w (probes w timeout) s8 of
        (Inl e, s9) \<Rightarrow> (Inl WaitTimeoutError, do_call (Render ''error.png'') s9)
      | (Inr r, s9) \<Rightarrow>
          (let (doc, s10) = document w s9
           in (Inr (cssselect ''div'' ''search-result'' doc), s10)))"

text \<open>\<open>node.xpath(path)[0]\<close>.\<close>

definition xpath0 :: "step list \<Rightarrow> element \<Rightarrow> exn + element" where
  "xpath0 path e = item0 (xpath path e)"

text \<open>The price text: \<open>.text.split()[0]\<close>, commas to periods, \<open>float\<close>, two decimals
  and the suffix.\<close>

definition price_of :: "element \<Rightarrow> exn + string" where
  "price_of node =
     (case el_text node of
        None \<Rightarrow> Inl AttributeError
      | Some t \<Rightarrow>
          and_then (item0 (py_split t)) (\<lambda>price_str.
            case py_float (comma_sub price_str) of
              None \<Rightarrow> Inl ValueError
            | Some x \<Rightarrow> Inr (format_2f x @ euro_suffix)))"

text \<open>The \<open>try\<close> block of \<open>parse_result\<close>.\<close>

definition parse_fields :: "element \<Rightarrow> exn + connection" where
  "parse_fields result =
     and_then (xpath0 path_departure result) (\<lambda>departure.
     and_then (xpath0 path_date departure) (\<lambda>d_date.
     and_then (xpath0 path_time departure) (\<lambda>d_time.
     and_then (xpath0 path_stop departure) (\<lambda>d_stop.
     and_then (xpath0 path_duration result) (\<lambda>duration.
     and_then (xpath0 path_trip_duration duration) (\<lambda>t_dur.
     and_then (xpath0 path_number_of_stops duration) (\<lambda>n_stops.
     and_then (xpath0 path_arrival result) (\<lambda>arrival.
     and_then (xpath0 path_date arrival) (\<lambda>a_date.
     and_then (xpath0 path_time arrival) (\<lambda>a_time.
     and_then (xpath0 path_stop arrival) (\<lambda>a_stop.
     and_then (xpath0 path_price result) (\<lambda>p_node.
     and_then (price_of p_node) (\<lambda>pr.
     and_then (xpath0 path_company result) (\<lambda>c_node.
       Inr \<lparr>departure_date = el_text d_date, departure_time = el_text d_time,
            departure_stop = el_text d_stop, trip_duration = el_text t_dur,
            number_of_stops = el_text n_stops, arrival_date = el_text a_date,
            arrival_time = el_text a_time, arrival_stop = el_text a_stop,
            price = pr, company = el_text c_node\<rparr>))))))))))))))"

text \<open>
  \<open>parse_result\<close>: on any exception of the \<open>try\<close> block the page is rendered to
  \<open>error.png\<close> and dumped to \<open>error.htm\<close>; then, with \<open>DEBUG\<close> set, the debugger is
  entered and the function returns \<open>None\<close>, otherwise \<open>BusliniensucheParsingError\<close> is
  raised with the traceback of the exception.
\<close>

definition parse_result ::
  "module_globals \<Rightarrow> world \<Rightarrow> session \<Rightarrow> element \<Rightarrow> (exn + connection option) \<times> session" where
  "parse_result g w s result =
     (case parse_fields result of
        Inr c \<Rightarrow> (Inr (Some c), s)
      | Inl e \<Rightarrow>
          (let s1 = do_call (Render ''error.png'') s;
               s2 = do_call (OpenFile ''error.htm'') s1;
               (doc, s3) = document w s2;
               s4 = do_call (WriteFile ''error.htm'') s3
           in if DEBUG g then (Inr None, do_call SetTrace s4)
              else (Inl (BusliniensucheParsingError e), s4)))"

text \<open>The loop of \<open>find_bus_connections\<close> over the results.\<close>

fun parse_all ::
  "module_globals \<Rightarrow> world \<Rightarrow> session \<Rightarrow> element list \<Rightarrow> connection option list \<Rightarrow>
   (exn + connection option list) \<times> session" where
  "parse_all g w s [] connections = (Inr connections, s)"
| "parse_all g w s (result # results) connections =
     (case parse_result g w s result of
        (Inl e, s1) \<Rightarrow> (Inl e, s1)
      | (Inr c, s1) \<Rightarrow> parse_all g w s1 results (connections @ [c]))"

definition find_bus_connections ::
  "module_globals \<Rightarrow> world \<Rightarrow> string \<Rightarrow> string \<Rightarrow> string \<Rightarrow> int \<Rightarrow>
   (exn + connection option list) \<times> session" where
  "find_bus_connections g w dep_stop arr_stop date timeout =
     (let session = create_browser_session SEARCH_PAGE False
      in case get_results w session dep_stop arr_stop date timeout of
           (Inl e, s1) \<Rightarrow> (Inl e, s1)
         | (Inr results, s1) \<Rightarrow> parse_all g w s1 results [])"

text \<open>
  The command line. \<open>DEBUG = True\<close> inside \<open>run_cli\<close> has no \<open>global\<close> declaration, so
  it binds a name local to the function; the module's globals are passed on as they
  were. The rows of the table are printed in the order of the connections (no sort
  column is set).
\<close>

record cli_args =
  arg_debug :: bool
  arg_timeout :: int
  arg_origin :: string
  arg_destination :: string
  arg_date :: string

record cli_locals =
  local_DEBUG :: "bool option"

text \<open>\<open>s[:20]\<close> on a field: \<open>TypeError\<close> when the field is \<open>None\<close>.\<close>

definition slice20 :: "string option \<Rightarrow> exn + string option" where
  "slice20 v = (case v of None \<Rightarrow> Inl TypeError | Some t \<Rightarrow> Inr (Some (take 20 t)))"

definition table_row :: "connection option \<Rightarrow> exn + string option list" where
  "table_row c =
     (case c of
        None \<Rightarrow> Inl AttributeError
      | Some k \<Rightarrow>
          and_then (slice20 (departure_stop k)) (\<lambda>dstop.
          and_then (slice20 (arrival_stop k)) (\<lambda>astop.
            Inr [departure_time k, Some (price k), dstop, arrival_time k, astop, company k])))"

fun results2table :: "connection option list \<Rightarrow> exn + string option list list" where
  "results2table [] = Inr []"
| "results2table (c # cs) =
     and_then (table_row c) (\<lambda>row.
     and_then (results2table cs) (\<lambda>rows. Inr (row # rows)))"

definition run_cli ::
  "module_globals \<Rightarrow> world \<Rightarrow> cli_args \<Rightarrow>
   (exn + string option list list) \<times> session \<times> module_globals \<times> cli_locals" where
  "run_cli g w args =
     (let locals = (if arg_debug args then \<lparr>local_DEBUG = Some True\<rparr> else \<lparr>local_DEBUG = None\<rparr>)
      in case find_bus_connections g w (arg_origin args) (arg_destination args)
                (arg_date args) (arg_timeout args) of
           (Inl e, s) \<Rightarrow> (Inl e, s, g, locals)
         | (Inr connections, s) \<Rightarrow> (results2table connections, s, g, locals))"

section \<open>Example pages\<close>

text \<open>
  A result fragment of the shape the location paths expect, built from the texts of its
  ten sub-nodes, and pages around such fragments. They serve as concrete inputs. The
  fragment's own text is a blank (the white space in front of its first child).
\<close>

definition el :: "string \<Rightarrow> element list \<Rightarrow> element" where
  "el t cs = Element t [] None cs"

definition leaf :: "string \<Rightarrow> string option \<Rightarrow> element" where
  "leaf t tx = Element t [] tx []"

definition stop_block :: "string option \<Rightarrow> string option \<Rightarrow> string option \<Rightarrow> element" where
  "stop_block d t st =
     el ''div'' [el ''div'' [leaf ''span'' d, leaf ''span'' None, leaf ''span'' t],
                 el ''div'' [leaf ''span'' st]]"

definition fragment ::
  "string option \<Rightarrow> string option \<Rightarrow> string option \<Rightarrow> string option \<Rightarrow> string option \<Rightarrow>
   string option \<Rightarrow> string option \<Rightarrow> string option \<Rightarrow> string option \<Rightarrow> string option \<Rightarrow>
   element" where
  "fragment d_date d_time d_stop t_dur n_stops a_date a_time a_stop price_text carrier =
     Element ''div'' [''search-result''] (Some '' '')
       [el ''div''
         [el ''div''
           [el ''div''
              [stop_block d_date d_time d_stop,
               el ''div'' [leaf ''div'' t_dur, leaf ''div'' n_stops],
               stop_block a_date a_time a_stop],
            el ''div''
              [el ''div'' [el ''div'' [el ''div'' [leaf ''span'' None, leaf ''span'' carrier]]],
               el ''div'' [el ''div'' [leaf ''span'' None,
                                       el ''span'' [leaf ''strong'' price_text]]]]]]]"

definition berlin_hamburg :: "string option \<Rightarrow> string option \<Rightarrow> element" where
  "berlin_hamburg price_text carrier =
     fragment (Some ''05.11.2026'') (Some ''08:00'') (Some ''Berlin ZOB'')
              (Some ''3:30 Std.'') (Some ''0 Stopps'')
              (Some ''05.11.2026'') (Some ''11:30'') (Some ''Hamburg ZOB'')
              price_text carrier"

definition page :: "element list \<Rightarrow> element" where
  "page results = el ''html'' [el ''body'' results]"

definition loading_page :: element where
  "loading_page =
     page [Element ''div'' [''search-result''] (Some ''Lade Busverbindungen ...'') []]"

text \<open>A world whose search form is complete, on 4 November 2026, with two probes per
  second of timeout.\<close>

definition world_of :: "(nat \<Rightarrow> element) \<Rightarrow> world" where
  "world_of docs =
     \<lparr>form = (\<lambda>sel. True), snapshots = docs, today = ''2026-11-04'',
      probes = (\<lambda>t. nat (2 * t))\<rparr>"


definition flixbus :: element where
  "flixbus = berlin_hamburg (Some ''19,99'') (Some ''FlixBus'')"

definition world_ready :: world where
  "world_ready = world_of (\<lambda>n. page [flixbus])"

definition world_loading :: world where
  "world_loading = world_of (\<lambda>n. loading_page)"

definition world_empty :: world where
  "world_empty = world_of (\<lambda>n. page [])"

definition flixbus_connection :: connection where
  "flixbus_connection =
     \<lparr>departure_date = Some ''05.11.2026'', departure_time = Some ''08:00'',
      departure_stop = Some ''Berlin ZOB'', trip_duration = Some ''3:30 Std.'',
      number_of_stops = Some ''0 Stopps'', arrival_date = Some ''05.11.2026'',
      arrival_time = Some ''11:30'', arrival_stop = Some ''Hamburg ZOB'',
      price = ''19.99'' @ euro_suffix, company = Some ''FlixBus''\<rparr>"

text \<open>A fragment whose price text is no number, one whose carrier node has no text, and
  one whose price has 310 digits in front of the comma.\<close>

definition bad_price :: element where
  "bad_price = berlin_hamburg (Some ''abc'') (Some ''FlixBus'')"

definition no_carrier :: element where
  "no_carrier = berlin_hamburg (Some ''19,99'') None"


definition world_bad :: world where
  "world_bad = world_of (\<lambda>n. page [flixbus, bad_price])"

text \<open>A page whose results arrive at the third look.\<close>

definition world_late :: world where
  "world_late = world_of (\<lambda>n. if n < 2 then page [] else page [flixbus])"

section \<open>Notions used in the statements\<close>

text \<open>The calls made on the page of an open session and on the diagnostic files.\<close>
fun page_call :: "call \<Rightarrow> bool" where
  "page_call (AtCss a) = True"
| "page_call (SetValue a b) = True"
| "page_call (Click a) = True"
| "page_call Document = True"
| "page_call (Render a) = True"
| "page_call (OpenFile a) = True"
| "page_call (WriteFile a) = True"
| "page_call c = False"

text \<open>The ready predicate is true on a document.\<close>

definition page_ready :: "element \<Rightarrow> bool" where
  "page_ready doc = (ready_body (cssselect ''div'' ''search-result'' doc) = Inr True)"

text \<open>A sub-node of a fragment, found in two lookups as \<open>parse_result\<close> does, and its text.\<close>

definition sub_node :: "step list \<Rightarrow> step list \<Rightarrow> element \<Rightarrow> exn + element" where
  "sub_node outer inner r = and_then (xpath0 outer r) (xpath0 inner)"

definition node_text :: "exn + element \<Rightarrow> exn + string option" where
  "node_text x = and_then x (\<lambda>n. Inr (el_text n))"

definition field_text :: "step list \<Rightarrow> step list \<Rightarrow> element \<Rightarrow> exn + string option" where
  "field_text outer inner r = node_text (sub_node outer inner r)"

text \<open>One of the ten sub-nodes of a fragment cannot be located.\<close>

definition missing_sub_field :: "element \<Rightarrow> bool" where
  "missing_sub_field r =
     (isl (sub_node path_departure path_date r) \<or>
      isl (sub_node path_departure path_time r) \<or>
      isl (sub_node path_departure path_stop r) \<or>
      isl (sub_node path_duration path_trip_duration r) \<or>
      isl (sub_node path_duration path_number_of_stops r) \<or>
      isl (sub_node path_arrival path_date r) \<or>
      isl (sub_node path_arrival path_time r) \<or>
      isl (sub_node path_arrival path_stop r) \<or>
      isl (xpath0 path_price r) \<or>
      isl (xpath0 path_company r))"

text \<open>The price node is there, but its text is absent, blank or not a number for
  \<open>float\<close>.\<close>

definition unparsable_price :: "element \<Rightarrow> bool" where
  "unparsable_price r = (case xpath0 path_price r of Inl e \<Rightarrow> False | Inr p \<Rightarrow> isl (price_of p))"

definition malformed :: "element \<Rightarrow> bool" where
  "malformed r = (missing_sub_field r \<or> unparsable_price r)"

text \<open>An entry of the returned list is what \<open>parse_result\<close> makes of a fragment.\<close>

definition parsed_as :: "connection option \<Rightarrow> element \<Rightarrow> bool" where
  "parsed_as c r = (case c of Some k \<Rightarrow> parse_fields r = Inr k | None \<Rightarrow> isl (parse_fields r))"

section \<open>The calls made by each function\<close>

lemma calls_do_call [simp]: "calls (do_call c s) = calls s @ [c]"
  by (simp add: do_call_def)

lemma ndocs_do_call [simp]: "ndocs (do_call c s) = ndocs s"
  by (simp add: do_call_def)

lemma fst_document [simp]: "fst (document w s) = snapshots w (ndocs s)"
  by (simp add: document_def)

lemma calls_document [simp]: "calls (snd (document w s)) = calls s @ [Document]"
  by (simp add: document_def)

lemma ndocs_document [simp]: "ndocs (snd (document w s)) = Suc (ndocs s)"
  by (simp add: document_def)

lemma calls_results_are_ready:
  "calls (snd (results_are_ready w s)) =
     calls s @ (case ready_body (cssselect ''div'' ''search-result'' (snapshots w (ndocs s))) of
                  Inr b \<Rightarrow> [Document] | Inl e \<Rightarrow> [Document, Render ''error.png''])"
  by (simp add: results_are_ready_def document_def split: sum.split)

lemma ndocs_results_are_ready [simp]: "ndocs (snd (results_are_ready w s)) = Suc (ndocs s)"
  by (simp add: results_are_ready_def document_def split: sum.split)

lemma fst_results_are_ready:
  "fst (results_are_ready w s) =
     (case ready_body (cssselect ''div'' ''search-result'' (snapshots w (ndocs s))) of
        Inr b \<Rightarrow> Some b | Inl e \<Rightarrow> None)"
  by (simp add: results_are_ready_def document_def split: sum.split)

lemma filter_results_are_ready:
  assumes "\<And>c. page_call c \<Longrightarrow> \<not> P c"
  shows "filter P (calls (snd (results_are_ready w s))) = filter P (calls s)"
  using assms by (simp add: calls_results_are_ready split: sum.split)

lemma filter_wait_for:
  assumes "\<And>c. page_call c \<Longrightarrow> \<not> P c"
  shows "filter P (calls (snd (wait_for w n s))) = filter P (calls s)"
proof (induction n arbitrary: s)
  case 0
  show ?case
    using filter_results_are_ready [where P = P and w = w and s = s, OF assms]
    by (auto split: prod.split)
next
  case (Suc n)
  show ?case
    using filter_results_are_ready [where P = P and w = w and s = s, OF assms] Suc.IH
    by (auto split: prod.split)
qed

lemma filter_get_results:
  assumes "\<And>c. page_call c \<Longrightarrow> \<not> P c"
  shows "filter P (calls (snd (get_results w s a b d t))) = filter P (calls s)"
proof -
  define s8 where "s8 = do_call (Click ''.btn-warning'') (do_call (AtCss ''.btn-warning'')
    (do_call (SetValue ''#When'' d) (do_call (AtCss ''#When'') (do_call (SetValue ''#To'' b)
    (do_call (AtCss ''#To'') (do_call (SetValue ''#From'' a) (do_call (AtCss ''#From'') s)))))))"
  have s8: "filter P (calls s8) = filter P (calls s)"
    using assms by (simp add: s8_def)
  obtain r s9 where wf: "wait_for w (probes w t) s8 = (r, s9)"
    by (cases "wait_for w (probes w t) s8")
  have s9: "filter P (calls s9) = filter P (calls s)"
    using filter_wait_for [where P = P and w = w and n = "probes w t" and s = s8, OF assms] wf s8
    by simp
  show ?thesis
    unfolding get_results_def Let_def
    using assms s9 wf
    by (simp add: s8_def [symmetric] document_def split: sum.split)
qed

lemma filter_parse_result:
  assumes "\<And>c. page_call c \<Longrightarrow> \<not> P c" and "DEBUG g = False \<or> \<not> P SetTrace"
  shows "filter P (calls (snd (parse_result g w s r))) = filter P (calls s)"
  using assms by (auto simp: parse_result_def Let_def document_def split: sum.split)

lemma filter_parse_all:
  assumes "\<And>c. page_call c \<Longrightarrow> \<not> P c" and "DEBUG g = False \<or> \<not> P SetTrace"
  shows "filter P (calls (snd (parse_all g w s rs acc))) = filter P (calls s)"
proof (induction rs arbitrary: s acc)
  case Nil
  show ?case by simp
next
  case (Cons r rs)
  show ?case
    using filter_parse_result [where P = P and g = g and w = w and s = s and r = r, OF assms] Cons.IH
    by (auto split: prod.split sum.split)
qed

lemma filter_find_bus_connections:
  assumes "\<And>c. page_call c \<Longrightarrow> \<not> P c" and "DEBUG g = False \<or> \<not> P SetTrace"
  shows "filter P (calls (snd (find_bus_connections g w a b d t))) =
         filter P [SessionNew, SetAttribute ''auto_load_images'' False, Visit SEARCH_PAGE]"
proof -
  have c: "calls (create_browser_session SEARCH_PAGE False) = [SessionNew, SetAttribute ''auto_load_images'' False, Visit SEARCH_PAGE]"
    by (simp add: create_browser_session_def fresh_def)
  obtain r s1 where gr: "get_results w (create_browser_session SEARCH_PAGE False) a b d t = (r, s1)"
    by (cases "get_results w (create_browser_session SEARCH_PAGE False) a b d t")
  have f1: "filter P (calls s1) = filter P (calls (create_browser_session SEARCH_PAGE False))"
    using filter_get_results [where P = P and w = w and s = "create_browser_session SEARCH_PAGE False" and a = a and b = b and d = d and t = t, OF assms(1)] gr by simp
  show ?thesis
  proof (cases r)
    case (Inl e)
    then show ?thesis using gr f1 c by (simp add: find_bus_connections_def)
  next
    case (Inr rs)
    then show ?thesis using gr f1 c filter_parse_all [where P = P and g = g and w = w and s = s1 and rs = rs and acc = "[]", OF assms]
      by (simp add: find_bus_connections_def)
  qed
qed

lemma truthy_results_are_ready:
  "truthy (fst (results_are_ready w s)) = page_ready (snapshots w (ndocs s))"
  by (auto simp: fst_results_are_ready truthy_def page_ready_def split: sum.split)

lemma wait_for_timeout:
  assumes "\<forall>k\<le>n. \<not> page_ready (snapshots w (ndocs s + k))"
  shows "fst (wait_for w n s) = Inl WaitTimeoutError"
  using assms
proof (induction n arbitrary: s)
  case 0
  then have "\<not> truthy (fst (results_are_ready w s))"
    by (simp add: truthy_results_are_ready)
  then show ?case by (cases "results_are_ready w s") auto
next
  case (Suc n)
  from Suc.prems have "\<not> page_ready (snapshots w (ndocs s + 0))" by blast
  then have nt: "\<not> truthy (fst (results_are_ready w s))"
    by (simp add: truthy_results_are_ready)
  have "\<forall>k\<le>n. \<not> page_ready (snapshots w (ndocs (snd (results_are_ready w s)) + k))"
  proof (intro allI impI)
    fix k assume "k \<le> n"
    then have "Suc k \<le> Suc n" by simp
    with Suc.prems have "\<not> page_ready (snapshots w (ndocs s + Suc k))" by blast
    then show "\<not> page_ready (snapshots w (ndocs (snd (results_are_ready w s)) + k))" by simp
  qed
  from Suc.IH [OF this] nt show ?case
    by (cases "results_are_ready w s") auto
qed

lemma ndocs_create [simp]: "ndocs (create_browser_session u l) = 0"
  by (simp add: create_browser_session_def fresh_def)

lemma calls_create:
  "calls (create_browser_session u l) = [SessionNew, SetAttribute ''auto_load_images'' l, Visit u]"
  by (simp add: create_browser_session_def fresh_def)

lemma get_results_timeout:
  assumes "form w ''#From''" "form w ''#To''" "form w ''#When''" "form w ''.btn-warning''"
    and "str_ge d (today w)"
    and "\<forall>k\<le>probes w t. \<not> page_ready (snapshots w (ndocs s + k))"
  shows "fst (get_results w s a b d t) = Inl WaitTimeoutError \<and>
         last (calls (snd (get_results w s a b d t))) = Render ''error.png''"
proof -
  define s8 where "s8 = do_call (Click ''.btn-warning'') (do_call (AtCss ''.btn-warning'')
    (do_call (SetValue ''#When'' d) (do_call (AtCss ''#When'') (do_call (SetValue ''#To'' b)
    (do_call (AtCss ''#To'') (do_call (SetValue ''#From'' a) (do_call (AtCss ''#From'') s)))))))"
  have n8: "ndocs s8 = ndocs s" by (simp add: s8_def)
  obtain r s9 where wf: "wait_for w (probes w t) s8 = (r, s9)"
    by (cases "wait_for w (probes w t) s8")
  have "fst (wait_for w (probes w t) s8) = Inl WaitTimeoutError"
    using wait_for_timeout [of "probes w t" w s8] assms(6) n8 by simp
  with wf have r: "r = Inl WaitTimeoutError" by simp
  show ?thesis
    unfolding get_results_def Let_def
    using assms(1-5) wf r
    by (simp add: s8_def [symmetric])
qed

lemma fst_parse_result:
  "fst (parse_result g w s r) =
     (case parse_fields r of
        Inr c \<Rightarrow> Inr (Some c)
      | Inl e \<Rightarrow> if DEBUG g then Inr None else Inl (BusliniensucheParsingError e))"
  by (simp add: parse_result_def Let_def document_def split: sum.split)

lemma fst_parse_all_indep:
  "fst (parse_all g w s rs acc) = fst (parse_all g w' s' rs acc)"
proof (induction rs arbitrary: s s' acc)
  case Nil
  show ?case by simp
next
  case (Cons r rs)
  obtain x s1 where p1: "parse_result g w s r = (x, s1)" by (cases "parse_result g w s r")
  obtain y s2 where p2: "parse_result g w' s' r = (y, s2)" by (cases "parse_result g w' s' r")
  have "x = y"
    using fst_parse_result [of g w s r] fst_parse_result [of g w' s' r] p1 p2 by simp
  then show ?case
    using p1 p2 Cons.IH [of s1 _ s2] by (simp split: sum.split)
qed

lemma parse_all_order:
  "fst (parse_all g w s rs acc) = Inr cs \<Longrightarrow>
     \<exists>cs'. cs = acc @ cs' \<and> list_all2 parsed_as cs' rs"
proof (induction rs arbitrary: s acc)
  case Nil
  then show ?case by simp
next
  case (Cons r rs)
  obtain x s1 where p1: "parse_result g w s r = (x, s1)" by (cases "parse_result g w s r")
  show ?case
  proof (cases x)
    case (Inl e)
    with p1 Cons.prems show ?thesis by simp
  next
    case (Inr c)
    with p1 Cons.prems have "fst (parse_all g w s1 rs (acc @ [c])) = Inr cs" by simp
    from Cons.IH [OF this] obtain cs' where cs': "cs = (acc @ [c]) @ cs'" "list_all2 parsed_as cs' rs"
      by blast
    have "parsed_as c r"
      using fst_parse_result [of g w s r] p1 Inr
      by (auto simp: parsed_as_def split: sum.splits if_splits)
    with cs' show ?thesis by (intro exI [of _ "c # cs'"]) simp
  qed
qed

lemma fst_wait_for_const:
  assumes "\<forall>k. snapshots w k = doc"
  shows "fst (wait_for w n s) = (if page_ready doc then Inr (Some True) else Inl WaitTimeoutError)"
proof (induction n arbitrary: s)
  case 0
  show ?case
    using truthy_results_are_ready [of w s] assms
    by (cases "results_are_ready w s") (auto simp: truthy_def)
next
  case (Suc n)
  show ?case
    using truthy_results_are_ready [of w s] assms Suc.IH
    by (cases "results_are_ready w s") (auto simp: truthy_def)
qed

lemma fst_get_results_const:
  assumes "\<forall>k. snapshots w k = doc"
  shows "fst (get_results w s a b d t) =
     (if \<not> form w ''#From'' then Inl AttributeError
      else if \<not> form w ''#To'' then Inl AttributeError
      else if \<not> str_ge d (today w) then Inl AssertionError
      else if \<not> form w ''#When'' then Inl AttributeError
      else if \<not> form w ''.btn-warning'' then Inl AttributeError
      else if page_ready doc then Inr (cssselect ''div'' ''search-result'' doc)
      else Inl WaitTimeoutError)"
proof -
  define s8 where "s8 = do_call (Click ''.btn-warning'') (do_call (AtCss ''.btn-warning'')
    (do_call (SetValue ''#When'' d) (do_call (AtCss ''#When'') (do_call (SetValue ''#To'' b)
    (do_call (AtCss ''#To'') (do_call (SetValue ''#From'' a) (do_call (AtCss ''#From'') s)))))))"
  obtain r s9 where wf: "wait_for w (probes w t) s8 = (r, s9)"
    by (cases "wait_for w (probes w t) s8")
  have "r = (if page_ready doc then Inr (Some True) else Inl WaitTimeoutError)"
    using fst_wait_for_const [OF assms, of "probes w t" s8] wf by simp
  then show ?thesis
    unfolding get_results_def Let_def
    using wf assms
    by (simp add: s8_def [symmetric] document_def)
qed

lemma parse_all_first_fault:
  assumes "DEBUG g = False" and "\<exists>r\<in>set rs. isl (parse_fields r)"
  shows "\<exists>i e. i < length rs \<and> parse_fields (rs ! i) = Inl e \<and>
               (\<forall>j<i. \<not> isl (parse_fields (rs ! j))) \<and>
               fst (parse_all g w s rs acc) = Inl (BusliniensucheParsingError e)"
  using assms(2)
proof (induction rs arbitrary: s acc)
  case Nil
  then show ?case by simp
next
  case (Cons r rs)
  obtain x s1 where p1: "parse_result g w s r = (x, s1)" by (cases "parse_result g w s r")
  show ?case
  proof (cases "parse_fields r")
    case (Inl e)
    then have "x = Inl (BusliniensucheParsingError e)"
      using fst_parse_result [of g w s r] p1 assms(1) by simp
    with p1 Inl show ?thesis
      by (intro exI [of _ 0] exI [of _ e]) simp
  next
    case (Inr c)
    then have x: "x = Inr (Some c)"
      using fst_parse_result [of g w s r] p1 by simp
    from Cons.prems Inr have "\<exists>r\<in>set rs. isl (parse_fields r)" by auto
    from Cons.IH [OF this, of s1 "acc @ [Some c]"] obtain i e where
      ie: "i < length rs" "parse_fields (rs ! i) = Inl e"
          "\<forall>j<i. \<not> isl (parse_fields (rs ! j))"
          "fst (parse_all g w s1 rs (acc @ [Some c])) = Inl (BusliniensucheParsingError e)"
      by blast
    have "\<forall>j<Suc i. \<not> isl (parse_fields ((r # rs) ! j))"
      using ie(3) Inr by (auto simp: less_Suc_eq_0_disj)
    with ie p1 x show ?thesis
      by (intro exI [of _ "Suc i"] exI [of _ e]) simp
  qed
qed

lemma isl_and_then: "isl (and_then x f) = (isl x \<or> (\<exists>v. x = Inr v \<and> isl (f v)))"
  by (cases x) (simp_all add: and_then_def)

lemma malformed_iff: "malformed r = isl (parse_fields r)"
  unfolding malformed_def missing_sub_field_def unparsable_price_def parse_fields_def sub_node_def
  by (auto simp: isl_and_then and_then_def split: sum.splits)

lemma cssselect_page0: "cssselect ''div'' ''search-result'' (page []) = []"
  by (simp add: cssselect_def page_def el_def)

lemma cssselect_page1:
  "cssselect ''div'' ''search-result'' (page [fragment a b c d e f g h i j]) =
     [fragment a b c d e f g h i j]"
  by (simp add: cssselect_def page_def el_def leaf_def fragment_def stop_block_def)

lemma cssselect_page2:
  "cssselect ''div'' ''search-result''
     (page [fragment a b c d e f g h i j, fragment a' b' c' d' e' f' g' h' i' j']) =
     [fragment a b c d e f g h i j, fragment a' b' c' d' e' f' g' h' i' j']"
  by (simp add: cssselect_def page_def el_def leaf_def fragment_def stop_block_def)

lemma cssselect_loading:
  "cssselect ''div'' ''search-result'' loading_page =
     [Element ''div'' [''search-result''] (Some ''Lade Busverbindungen ...'') []]"
  by (simp add: cssselect_def loading_page_def page_def el_def)

lemma parse_fields_fragment:
  "parse_fields (fragment a b c d e f g h i j) =
     and_then (price_of (leaf ''strong'' i)) (\<lambda>pr.
       Inr \<lparr>departure_date = a, departure_time = b, departure_stop = c, trip_duration = d,
            number_of_stops = e, arrival_date = f, arrival_time = g, arrival_stop = h,
            price = pr, company = j\<rparr>)"
  by (simp add: parse_fields_def fragment_def stop_block_def el_def leaf_def xpath0_def xpath_def
      xpath_step_def item0_def and_then_def
      path_departure_def path_duration_def path_arrival_def path_date_def path_time_def
      path_stop_def path_trip_duration_def path_number_of_stops_def path_price_def
      path_company_def split: sum.split)

lemma page_ready_fragments:
  "page_ready (page [fragment a b c d e f g h i j])"
  unfolding page_ready_def cssselect_page1
  by (simp add: ready_body_def and_then_def item0_def fragment_def DELAY_MSG_REGEX_def)

lemma not_ready_loading: "\<not> page_ready loading_page"
  by (simp add: page_ready_def cssselect_loading ready_body_def and_then_def item0_def
      DELAY_MSG_REGEX_def)

lemma not_ready_empty: "\<not> page_ready (page [])"
  by (simp add: page_ready_def cssselect_page0 ready_body_def and_then_def item0_def)

section \<open>Parsing and printing prices\<close>

lemma bitlen_bounds: "0 < n \<Longrightarrow> 2 ^ (bitlen n - 1) \<le> n \<and> n < 2 ^ bitlen n"
proof (induction n rule: bitlen.induct)
  case (1 n)
  show ?case
  proof (cases "n div 2 = 0")
    case True
    with 1 have "n = Suc 0" by (simp add: div_eq_0_iff)
    then show ?thesis by (simp add: bitlen.simps [of "Suc 0"] bitlen.simps [of 0])
  next
    case False
    with 1 have ih: "2 ^ (bitlen (n div 2) - 1) \<le> n div 2" "n div 2 < 2 ^ bitlen (n div 2)"
      by auto
    have pos: "0 < bitlen (n div 2)" using False by (simp add: bitlen.simps [of "n div 2"])
    have b: "bitlen n = Suc (bitlen (n div 2))" using 1 by (simp add: bitlen.simps [of n])
    have "(2::nat) ^ bitlen (n div 2) = 2 * 2 ^ (bitlen (n div 2) - 1)"
      using pos by (cases "bitlen (n div 2)") auto
    then have lo: "(2::nat) ^ bitlen (n div 2) \<le> n" using ih(1) by linarith
    have hi: "n < 2 * 2 ^ bitlen (n div 2)" using ih(2) by linarith
    show ?thesis using lo hi b by simp
  qed
qed

lemma bitlen_bounds_real:
  assumes "0 < n"
  shows "2 powi (int (bitlen n) - 1) \<le> real n" "real n < 2 powi (int (bitlen n))"
proof -
  have pos: "0 < bitlen n" using assms by (simp add: bitlen.simps [of n])
  then have "int (bitlen n) - 1 = int (bitlen n - 1)" by simp
  then have "(2::real) powi (int (bitlen n) - 1) = real (2 ^ (bitlen n - 1))"
    by (simp only: power_int_of_nat) simp
  also have "\<dots> \<le> real n"
    using bitlen_bounds [OF assms] by (simp only: of_nat_le_iff)
  finally show "2 powi (int (bitlen n) - 1) \<le> real n" .
  have "real n < real (2 ^ bitlen n)"
    using bitlen_bounds [OF assms] by (simp only: of_nat_less_iff)
  then show "real n < 2 powi (int (bitlen n))" by simp
qed

lemma two_powi_nat: "(2::real) powi k = real (2 ^ nat k) / real (2 ^ nat (- k))"
proof (cases "0 \<le> k")
  case True
  then show ?thesis by (simp add: power_int_def)
next
  case False
  then show ?thesis by (simp add: power_int_def field_simps)
qed

lemma two_powi_pos [simp]: "0 < (2::real) powi k"
  by (simp add: zero_less_power_int)

lemma two_powi_less_D: "(2::real) powi a < 2 powi b \<Longrightarrow> a < b"
  using power_int_increasing [of b a "2::real"] by (cases "a < b") auto

lemma scale_ratio:
  assumes "0 < b"
  shows "real (a * 2 ^ nat (- e)) / real (b * 2 ^ nat e) = (real a / real b) / 2 powi e"
  by (simp add: two_powi_nat field_simps)

lemma scale_le:
  assumes "0 < d"
  shows "(d * 2 ^ nat k \<le> n * 2 ^ nat (- k)) = (2 powi k \<le> real n / real d)"
proof -
  have "(d * 2 ^ nat k \<le> n * 2 ^ nat (- k)) = (real (d * 2 ^ nat k) \<le> real (n * 2 ^ nat (- k)))"
    by (simp only: of_nat_le_iff)
  also have "\<dots> = (2 powi k \<le> real n / real d)"
    using assms by (simp add: two_powi_nat field_simps)
  finally show ?thesis .
qed

lemma ilog2_bounds:
  assumes "0 < n" "0 < d"
  shows "2 powi (ilog2 n d) \<le> real n / real d" "real n / real d < 2 powi (ilog2 n d + 1)"
proof -
  define k where "k = int (bitlen n) - int (bitlen d)"
  note bn = bitlen_bounds_real [OF assms(1)]
  note bd = bitlen_bounds_real [OF assms(2)]
  have rd: "0 < real d" "0 < real n" using assms by simp_all
  have up: "real n / real d < 2 powi (k + 1)"
  proof -
    have "real n / real d < 2 powi (int (bitlen n)) / 2 powi (int (bitlen d) - 1)"
      using bn(2) bd(1) rd by (intro frac_less) simp_all
    also have "\<dots> = 2 powi (k + 1)"
    proof -
      have e1: "k + 1 = int (bitlen n) - (int (bitlen d) - 1)" by (simp add: k_def)
      show ?thesis unfolding e1 by (rule power_int_diff [symmetric]) simp
    qed
    finally show ?thesis .
  qed
  have lo: "2 powi (k - 1) \<le> real n / real d"
  proof -
    have "2 powi (int (bitlen n) - 1) / 2 powi (int (bitlen d)) \<le> real n / real d"
      using bn(1) bd(2) rd by (intro frac_le) simp_all
    moreover have "2 powi (int (bitlen n) - 1) / 2 powi (int (bitlen d)) = (2::real) powi (k - 1)"
    proof -
      have e1: "k - 1 = (int (bitlen n) - 1) - int (bitlen d)" by (simp add: k_def)
      show ?thesis unfolding e1 by (rule power_int_diff [symmetric]) simp
    qed
    ultimately show ?thesis by simp
  qed
  have E: "ilog2 n d = (if 2 powi k \<le> real n / real d then k else k - 1)"
    by (simp add: ilog2_def Let_def k_def [symmetric] scale_le [OF assms(2)])
  show "2 powi (ilog2 n d) \<le> real n / real d" using E lo by auto
  show "real n / real d < 2 powi (ilog2 n d + 1)" using E up by auto
qed

lemma rhe_div_near:
  assumes "0 < b"
  shows "\<bar>real (rhe_div a b) - real a / real b\<bar> \<le> 1 / 2"
proof -
  have ab: "real a = real (a div b) * real b + real (a mod b)"
    by (metis mult.commute of_nat_add of_nat_mult div_mult_mod_eq)
  have m: "a mod b < b" using assms by simp
  show ?thesis
    using assms m unfolding rhe_div_def Let_def ab
    by (auto simp: field_simps abs_if)
qed

lemma rhe_div_unique:
  assumes "0 < b" "\<bar>real a / real b - real q\<bar> < 1 / 2"
  shows "rhe_div a b = q"
proof -
  have "\<bar>real (rhe_div a b) - real q\<bar> < 1"
    using rhe_div_near [OF assms(1), of a] assms(2) by linarith
  then show ?thesis by linarith
qed

lemma round_double_neg:
  "round_double sg m (- int l) =
     (if m = 0 then Finite sg 0 0
      else let e = max (ilog2 m (10 ^ l) - 52) (- 1074);
               mant = rhe_div (m * 2 ^ nat (- e)) (10 ^ l * 2 ^ nat e)
           in if 2 ^ 1024 * 2 ^ nat (- e) \<le> mant * 2 ^ nat e then Infinity sg
              else Finite sg mant e)"
  by (cases "l = 0") (simp_all add: round_double_def Let_def)

lemma overflow_test:
  "(2 ^ 1024 * 2 ^ nat (- e) \<le> mant * 2 ^ nat e) = (2 ^ 1024 \<le> real mant * 2 powi e)"
proof -
  have "(2 ^ 1024 * 2 ^ nat (- e) \<le> mant * 2 ^ nat e) =
        (real (2 ^ 1024 * 2 ^ nat (- e)) \<le> real (mant * 2 ^ nat e))"
    by (simp only: of_nat_le_iff)
  also have "\<dots> = (2 ^ 1024 \<le> real mant * 2 powi e)"
    by (simp add: two_powi_nat field_simps)
  finally show ?thesis .
qed

lemma mant_near:
  assumes "0 < d"
  shows "\<bar>real (rhe_div (n * 2 ^ nat (- e)) (d * 2 ^ nat e)) * 2 powi e - real n / real d\<bar>
           \<le> 2 powi e / 2"
proof -
  define x where "x = real (rhe_div (n * 2 ^ nat (- e)) (d * 2 ^ nat e))"
  define y where "y = real n / real d"
  define p where "p = (2::real) powi e"
  have p: "0 < p" by (simp add: p_def)
  have "0 < d * 2 ^ nat e" using assms by simp
  from rhe_div_near [OF this, of "n * 2 ^ nat (- e)"]
  have "\<bar>x - y / p\<bar> \<le> 1 / 2"
    by (simp only: scale_ratio [OF assms] x_def y_def p_def)
  then have "\<bar>x - y / p\<bar> * p \<le> 1 / 2 * p"
    using p by (intro mult_right_mono) simp_all
  moreover have "\<bar>x - y / p\<bar> * p = \<bar>(x - y / p) * p\<bar>"
    using p by (simp add: abs_mult)
  moreover have "(x - y / p) * p = x * p - y"
    using p by (simp add: field_simps)
  ultimately have "\<bar>x * p - y\<bar> \<le> p / 2" by simp
  then show ?thesis by (simp only: x_def y_def p_def)
qed


lemma round_double_eq:
  assumes "0 < m"
    and "e = max (ilog2 m (10 ^ l) - 52) (- 1074)"
    and "mant = rhe_div (m * 2 ^ nat (- e)) (10 ^ l * 2 ^ nat e)"
  shows "round_double sg m (- int l) =
           (if 2 ^ 1024 \<le> real mant * 2 powi e then Infinity sg else Finite sg mant e)"
proof -
  have "round_double sg m (- int l) =
          (if 2 ^ 1024 * 2 ^ nat (- e) \<le> mant * 2 ^ nat e then Infinity sg else Finite sg mant e)"
    using assms(1) by (simp add: assms(2,3) round_double_neg Let_def)
  then show ?thesis by (simp only: overflow_test)
qed



lemma hundredths_exact:
  assumes "l \<le> 2" "real m < 10 ^ 13 * 10 ^ l"
  shows "format_2f (round_double sg m (- int l)) =
           (if sg then ''-'' else '''') @ show_nat (m * 10 ^ (2 - l) div 100) @ ''.'' @
           [digit_char (m * 10 ^ (2 - l) mod 100 div 10), digit_char (m * 10 ^ (2 - l) mod 10)]"
proof (cases "m = 0")
  case True
  then show ?thesis by (simp add: round_double_neg format_2f_def rhe_div_def)
next
  case False
  define d :: nat where "d = 10 ^ l"
  define E where "E = ilog2 m d"
  define e where "e = max (E - 52) (- 1074)"
  define mant where "mant = rhe_div (m * 2 ^ nat (- e)) (d * 2 ^ nat e)"
  define K where "K = m * 10 ^ (2 - l)"
  have d: "0 < d" by (simp add: d_def)
  have m: "0 < m" using False by simp
  have d100: "real d \<le> 100"
  proof -
    have "(10::nat) ^ l \<le> 10 ^ 2" using assms(1) by (intro power_increasing) simp_all
    then have "d \<le> 100" by (simp add: d_def)
    then show ?thesis by simp
  qed
  have V: "real m / real d < 10 ^ 13"
    using assms d by (simp add: d_def field_simps)
  have Vlo: "1 / 100 \<le> real m / real d"
  proof -
    have "1 / 100 \<le> 1 / real d" using d d100 by (simp add: field_simps)
    also have "\<dots> \<le> real m / real d" using m d by (simp add: field_simps)
    finally show ?thesis .
  qed
  have K: "real K = 100 * (real m / real d)"
  proof -
    have "(10::nat) ^ (2 - l) * 10 ^ l = 10 ^ 2"
      using assms(1) by (simp add: power_add [symmetric])
    then have "real ((10::nat) ^ (2 - l) * 10 ^ l) = real (10 ^ 2)" by (simp only:)
    then have "real (10 ^ (2 - l)) * real d = 100"
      unfolding d_def by simp
    then show ?thesis using d by (simp add: K_def field_simps)
  qed
  have "2 powi E \<le> real m / real d"
    unfolding E_def by (rule ilog2_bounds(1) [OF m d])
  also have "\<dots> < 10 ^ 13" by (rule V)
  also have "(10::real) ^ 13 < 2 powi 44" by simp
  finally have E1: "E < 44" by (rule two_powi_less_D)
  have "(2::real) powi (- 7) < 1 / 100" by (simp add: power_int_minus_divide)
  also have "\<dots> \<le> real m / real d" by (rule Vlo)
  also have "\<dots> < 2 powi (E + 1)"
    unfolding E_def by (rule ilog2_bounds(2) [OF m d])
  finally have "- 7 < E + 1" by (rule two_powi_less_D)
  then have e: "e = E - 52" by (simp add: e_def)
  have e9: "e \<le> - 9" using e E1 by simp
  then have "(2::real) powi e \<le> 2 powi (- 9)"
    by (intro power_int_increasing) simp_all
  then have pe: "(2::real) powi e \<le> 1 / 512" by (simp add: power_int_minus_divide)
  note near = mant_near [OF d, of m e, folded mant_def]
  have "real mant * 2 powi e \<le> real m / real d + 2 powi e / 2"
    using near by linarith
  also have "\<dots> < 10 ^ 13 + 1" using V pe by linarith
  also have "(10::real) ^ 13 + 1 \<le> 2 ^ 1024" by simp
  finally have nov: "\<not> (2 ^ 1024 \<le> real mant * 2 powi e)" by (simp only: not_le)
  have "round_double sg m (- int l) =
          (if 2 ^ 1024 \<le> real mant * 2 powi e then Infinity sg else Finite sg mant e)"
    by (rule round_double_eq [OF m]) (simp_all only: e_def E_def d_def mant_def)
  with nov have rd: "round_double sg m (- int l) = Finite sg mant e" by (simp only: if_False)
  have ratio: "real (mant * 100 * 2 ^ nat e) / real (2 ^ nat (- e)) = 100 * (real mant * 2 powi e)"
    by (simp add: two_powi_nat)
  have "100 * (real mant * 2 powi e) - real K = 100 * (real mant * 2 powi e - real m / real d)"
    unfolding K by (simp add: algebra_simps)
  then have "\<bar>100 * (real mant * 2 powi e) - real K\<bar> =
             \<bar>100 * (real mant * 2 powi e - real m / real d)\<bar>"
    by (simp only:)
  also have "\<dots> = 100 * \<bar>real mant * 2 powi e - real m / real d\<bar>"
    by (simp only: abs_mult abs_numeral)
  also have "\<dots> \<le> 100 * (2 powi e / 2)" using near by simp
  also have "\<dots> < 1 / 2" using pe by simp
  finally have "\<bar>real (mant * 100 * 2 ^ nat e) / real (2 ^ nat (- e)) - real K\<bar> < 1 / 2"
    by (simp only: ratio)
  then have h: "rhe_div (mant * 100 * 2 ^ nat e) (2 ^ nat (- e)) = K"
    by (intro rhe_div_unique) simp_all
  show ?thesis
    by (simp add: rd format_2f_def h Let_def K_def [symmetric])
qed

lemma foldl_digits:
  "foldl (\<lambda>a c. 10 * a + digit_val c) acc ds =
     acc * 10 ^ length ds + foldl (\<lambda>a c. 10 * a + digit_val c) 0 ds"
proof (induction ds arbitrary: acc)
  case Nil
  show ?case by simp
next
  case (Cons c ds)
  show ?case
    using Cons.IH [of "10 * acc + digit_val c"] Cons.IH [of "digit_val c"]
    by (simp add: algebra_simps)
qed

lemma digits_val_append:
  "digits_val (a @ b) = digits_val a * 10 ^ length b + digits_val b"
  unfolding digits_val_def foldl_append
  by (rule foldl_digits)

lemma digits_val_Cons: "digits_val (c # ds) = digit_val c * 10 ^ length ds + digits_val ds"
  using digits_val_append [of "[c]" ds] by (simp add: digits_val_def)

lemma digit_val_le: "is_digit c \<Longrightarrow> digit_val c \<le> 9"
  unfolding is_digit_def digit_val_def by linarith

lemma digits_val_bound: "list_all is_digit ds \<Longrightarrow> digits_val ds < 10 ^ length ds"
proof (induction ds)
  case Nil
  show ?case by (simp add: digits_val_def)
next
  case (Cons c ds)
  then have "digit_val c \<le> 9" "digits_val ds < 10 ^ length ds"
    by (simp_all add: digit_val_le)
  then have "digit_val c * 10 ^ length ds + digits_val ds < 9 * 10 ^ length ds + 10 ^ length ds"
    by (intro add_le_less_mono mult_right_mono) simp_all
  then show ?case by (simp add: digits_val_Cons)
qed

lemma digit_not_space: "is_digit c \<Longrightarrow> \<not> is_space c"
  by (auto simp: is_digit_def is_space_def)

lemma digit_char_val: "is_digit c \<Longrightarrow> digit_char (digit_val c) = c"
  by (simp add: is_digit_def digit_char_def digit_val_def)

lemma digit_neq:
  assumes "is_digit c"
  shows "c \<noteq> CHR '',''" "c \<noteq> CHR ''.''" "c \<noteq> CHR ''-''" "c \<noteq> CHR ''+''"
    "lower c \<noteq> CHR ''i''" "lower c \<noteq> CHR ''n''"
  using assms by (auto simp: is_digit_def lower_def)

lemma split_ws_token:
  "list_all (\<lambda>c. \<not> is_space c) s \<Longrightarrow> cur @ s \<noteq> [] \<Longrightarrow> split_ws cur s = [cur @ s]"
  by (induction s arbitrary: cur) auto

lemma py_split_token:
  "list_all (\<lambda>c. \<not> is_space c) s \<Longrightarrow> s \<noteq> [] \<Longrightarrow> py_split s = [s]"
  using split_ws_token [of s "[]"] by (simp add: py_split_def)

lemma comma_sub_digits: "list_all is_digit ds \<Longrightarrow> comma_sub ds = ds"
  by (induction ds) (auto simp: comma_sub_def digit_neq)

lemma comma_sub_decimal:
  "list_all is_digit ip \<Longrightarrow> list_all is_digit fp \<Longrightarrow>
     comma_sub (ip @ '','' @ fp) = ip @ ''.'' @ fp"
  using comma_sub_digits [of ip] comma_sub_digits [of fp] by (simp add: comma_sub_def)

lemma strip_none:
  assumes "s \<noteq> []" "\<not> is_space (hd s)" "\<not> is_space (last s)"
  shows "rev (dropWhile is_space (rev (dropWhile is_space s))) = s"
proof -
  have a: "dropWhile is_space s = s" using assms(1,2) by (cases s) auto
  obtain xs x where sx: "s = xs @ [x]"
    using assms(1) by (cases s rule: rev_cases) auto
  have "dropWhile is_space (rev s) = rev s" using assms(3) by (simp add: sx)
  with a show ?thesis by simp
qed

lemma takeWhile_digits:
  "list_all is_digit ds \<Longrightarrow> takeWhile is_digit (ds @ CHR ''.'' # rest) = ds"
  by (induction ds) (auto simp: is_digit_def)

lemma dropWhile_digits:
  "list_all is_digit ds \<Longrightarrow> dropWhile is_digit (ds @ CHR ''.'' # rest) = CHR ''.'' # rest"
  by (induction ds) (auto simp: is_digit_def)

lemma takeWhile_all: "list_all is_digit ds \<Longrightarrow> takeWhile is_digit ds = ds"
  by (induction ds) auto

lemma dropWhile_all: "list_all is_digit ds \<Longrightarrow> dropWhile is_digit ds = []"
  by (induction ds) auto

lemma py_float_decimal:
  assumes "ip \<noteq> []" "list_all is_digit ip" "list_all is_digit fp"
  shows "py_float (ip @ ''.'' @ fp) =
           Some (round_double False (digits_val (ip @ fp)) (- int (length fp)))"
proof -
  define s where "s = ip @ ''.'' @ fp"
  obtain c cs where ip: "ip = c # cs" using assms(1) by (cases ip) auto
  have c: "is_digit c" using assms(2) ip by simp
  have s: "s = c # (cs @ ''.'' @ fp)" by (simp add: s_def ip)
  have "\<not> is_space (last s)"
  proof (cases "fp = []")
    case True
    then show ?thesis by (simp add: s_def is_space_def)
  next
    case False
    then have "last s = last fp" by (simp add: s_def)
    moreover have "is_digit (last fp)"
      using assms(3) False by (simp add: list_all_iff)
    ultimately show ?thesis by (simp add: digit_not_space)
  qed
  then have strip: "rev (dropWhile is_space (rev (dropWhile is_space s))) = s"
    using c by (intro strip_none) (simp_all add: s digit_not_space)
  have sign: "take_sign s = (False, s)"
    using digit_neq [OF c] by (simp add: take_sign_def s)
  have word: "map lower s \<noteq> ''inf''" "map lower s \<noteq> ''infinity''" "map lower s \<noteq> ''nan''"
    using digit_neq [OF c] by (auto simp: s)
  have tw: "takeWhile is_digit s = ip" "dropWhile is_digit s = CHR ''.'' # fp"
    using takeWhile_digits [OF assms(2), of fp] dropWhile_digits [OF assms(2), of fp]
    by (simp_all add: s_def)
  show ?thesis
    unfolding s_def [symmetric]
    using assms(1)
    by (simp add: py_float_def strip sign word tw takeWhile_all [OF assms(3)]
        dropWhile_all [OF assms(3)] exponent_part_def Let_def)
qed

lemma digit_char_0 [simp]: "digit_char 0 = CHR ''0''"
proof -
  have "is_digit CHR ''0''" "digit_val CHR ''0'' = 0"
    by (simp_all add: is_digit_def digit_val_def)
  then show ?thesis using digit_char_val [of "CHR ''0''"] by simp
qed

lemma two_digits:
  assumes "list_all is_digit fp" "length fp \<le> 2"
  shows "[digit_char (digits_val fp * 10 ^ (2 - length fp) div 10),
          digit_char (digits_val fp * 10 ^ (2 - length fp) mod 10)] = take 2 (fp @ ''00'')"
proof -
  consider "fp = []" | a where "fp = [a]" | a b where "fp = [a, b]"
    using assms(2) by (cases fp; cases "tl fp"; cases "tl (tl fp)") auto
  then show ?thesis
  proof cases
    case 1
    then show ?thesis by (simp add: digits_val_def)
  next
    case 2
    then have "is_digit a" using assms(1) by simp
    then show ?thesis
      using 2 digit_char_val [of a] by (simp add: digits_val_def)
  next
    case 3
    then have d: "is_digit a" "is_digit b" using assms(1) by simp_all
    then have "digit_val b < 10" using digit_val_le [of b] by simp
    then show ?thesis
      using 3 d digit_char_val [of a] digit_char_val [of b] by (simp add: digits_val_def)
  qed
qed

lemma digit_char_numeral:
  "digit_char (Suc 0) = CHR ''1''" "digit_char 1 = CHR ''1''" "digit_char 2 = CHR ''2''"
  "digit_char 3 = CHR ''3''" "digit_char 4 = CHR ''4''" "digit_char 5 = CHR ''5''"
  "digit_char 6 = CHR ''6''" "digit_char 7 = CHR ''7''" "digit_char 8 = CHR ''8''"
  "digit_char 9 = CHR ''9''"
proof -
  have v: "digit_val CHR ''1'' = 1" "digit_val CHR ''2'' = 2" "digit_val CHR ''3'' = 3"
    "digit_val CHR ''4'' = 4" "digit_val CHR ''5'' = 5" "digit_val CHR ''6'' = 6"
    "digit_val CHR ''7'' = 7" "digit_val CHR ''8'' = 8" "digit_val CHR ''9'' = 9"
    by (simp_all add: digit_val_def)
  have d: "is_digit CHR ''1''" "is_digit CHR ''2''" "is_digit CHR ''3''" "is_digit CHR ''4''"
    "is_digit CHR ''5''" "is_digit CHR ''6''" "is_digit CHR ''7''" "is_digit CHR ''8''"
    "is_digit CHR ''9''"
    by (simp_all add: is_digit_def)
  show "digit_char 1 = CHR ''1''" using digit_char_val [OF d(1)] by (simp only: v)
  then show "digit_char (Suc 0) = CHR ''1''" by simp
  show "digit_char 2 = CHR ''2''" using digit_char_val [OF d(2)] by (simp only: v)
  show "digit_char 3 = CHR ''3''" using digit_char_val [OF d(3)] by (simp only: v)
  show "digit_char 4 = CHR ''4''" using digit_char_val [OF d(4)] by (simp only: v)
  show "digit_char 5 = CHR ''5''" using digit_char_val [OF d(5)] by (simp only: v)
  show "digit_char 6 = CHR ''6''" using digit_char_val [OF d(6)] by (simp only: v)
  show "digit_char 7 = CHR ''7''" using digit_char_val [OF d(7)] by (simp only: v)
  show "digit_char 8 = CHR ''8''" using digit_char_val [OF d(8)] by (simp only: v)
  show "digit_char 9 = CHR ''9''" using digit_char_val [OF d(9)] by (simp only: v)
qed

lemma price_of_decimal:
  assumes "ip \<noteq> []" "list_all is_digit ip" "list_all is_digit fp"
    and "el_text node = Some (ip @ '','' @ fp)"
  shows "price_of node =
           Inr (format_2f (round_double False (digits_val (ip @ fp)) (- int (length fp))) @
                euro_suffix)"
proof -
  define t where "t = ip @ '','' @ fp"
  define u where "u = ip @ ''.'' @ fp"
  have cn: "\<not> is_space CHR '',''" by (simp add: is_space_def)
  have ns: "list_all (\<lambda>c. \<not> is_space c) t"
    using assms(2,3) cn by (auto simp: t_def list_all_iff digit_not_space)
  have "t \<noteq> []" using assms(1) by (simp add: t_def)
  then have sp: "py_split t = [t]" by (rule py_split_token [OF ns])
  have cs: "comma_sub t = u"
    unfolding t_def u_def by (rule comma_sub_decimal [OF assms(2,3)])
  have fl: "py_float u =
              Some (round_double False (digits_val (ip @ fp)) (- int (length fp)))"
    unfolding u_def by (rule py_float_decimal [OF assms(1,2,3)])
  have "el_text node = Some t" by (simp only: assms(4) t_def)
  then show ?thesis
    by (simp add: price_of_def sp item0_def and_then_def cs fl)
qed

lemma mantissa_bound:
  assumes "list_all is_digit ip" "list_all is_digit fp" "length ip \<le> k"
  shows "real (digits_val (ip @ fp)) < 10 ^ k * 10 ^ length fp"
proof -
  have a: "digits_val ip < 10 ^ length ip" by (rule digits_val_bound [OF assms(1)])
  have b: "digits_val fp < 10 ^ length fp" by (rule digits_val_bound [OF assms(2)])
  have "(10::nat) ^ length ip \<le> 10 ^ k" using assms(3) by (intro power_increasing) simp_all
  with a have "Suc (digits_val ip) \<le> 10 ^ k" by linarith
  then have "Suc (digits_val ip) * 10 ^ length fp \<le> 10 ^ k * 10 ^ length fp"
    by (intro mult_right_mono) simp_all
  moreover have "digits_val (ip @ fp) < Suc (digits_val ip) * 10 ^ length fp"
    using b by (simp add: digits_val_append)
  ultimately have "digits_val (ip @ fp) < 10 ^ k * 10 ^ length fp" by linarith
  then have "real (digits_val (ip @ fp)) < real (10 ^ k * 10 ^ length fp)"
    by (simp only: of_nat_less_iff)
  then show ?thesis by simp
qed


lemma price_of_exact:
  assumes "ip \<noteq> []" "list_all is_digit ip" "list_all is_digit fp"
    and "el_text node = Some (ip @ '','' @ fp)" and "length ip \<le> 13" "length fp \<le> 2"
  shows "price_of node =
           Inr (show_nat (digits_val ip) @ ''.'' @ take 2 (fp @ ''00'') @ euro_suffix)"
proof -
  define F where "F = digits_val fp * 10 ^ (2 - length fp)"
  have p: "(10::nat) ^ length fp * 10 ^ (2 - length fp) = 100"
    using assms(6) by (simp add: power_add [symmetric])
  have K: "digits_val (ip @ fp) * 10 ^ (2 - length fp) = digits_val ip * 100 + F"
    using p by (simp add: digits_val_append F_def algebra_simps)
  have "digits_val fp * 10 ^ (2 - length fp) < 10 ^ length fp * 10 ^ (2 - length fp)"
    using digits_val_bound [OF assms(3)] by (intro mult_strict_right_mono) simp_all
  then have F: "F < 100" using p by (simp add: F_def)
  have m10: "(digits_val ip * 100 + F) mod 10 = F mod 10"
    by presburger
  have "format_2f (round_double False (digits_val (ip @ fp)) (- int (length fp))) =
          show_nat (digits_val ip) @ ''.'' @ [digit_char (F div 10), digit_char (F mod 10)]"
    using hundredths_exact [OF assms(6) mantissa_bound [OF assms(2,3,5)], of False] F
    by (simp add: K m10)
  also have "[digit_char (F div 10), digit_char (F mod 10)] = take 2 (fp @ ''00'')"
    unfolding F_def by (rule two_digits [OF assms(3,6)])
  finally show ?thesis
    by (simp add: price_of_decimal [OF assms(1-4)])
qed


lemma price_19_99: "price_of (leaf ''strong'' (Some ''19,99'')) = Inr (''19.99'' @ euro_suffix)"
proof -
  have "price_of (leaf ''strong'' (Some ''19,99'')) =
          Inr (show_nat (digits_val ''19'') @ ''.'' @ take 2 (''99'' @ ''00'') @ euro_suffix)"
    by (rule price_of_exact) (simp_all add: is_digit_def leaf_def)
  moreover have "show_nat (digits_val ''19'') = ''19''"
    by (simp add: digits_val_def digit_val_def show_nat.simps digit_char_numeral)
  ultimately show ?thesis by simp
qed



lemma price_abc: "price_of (leaf ''strong'' (Some ''abc'')) = Inl ValueError"
  by (simp add: price_of_def leaf_def py_split_def is_space_def and_then_def item0_def comma_sub_def
     py_float_def take_sign_def lower_def is_digit_def exponent_part_def)

section \<open>Runs on the example pages\<close>

lemma parse_fields_flixbus: "parse_fields flixbus = Inr flixbus_connection"
  by (simp add: flixbus_def berlin_hamburg_def parse_fields_fragment price_19_99 and_then_def
      flixbus_connection_def)

lemma parse_fields_bad_price: "parse_fields bad_price = Inl ValueError"
  by (simp add: bad_price_def berlin_hamburg_def parse_fields_fragment price_abc and_then_def)

lemma parse_fields_no_carrier:
  "parse_fields no_carrier = Inr (flixbus_connection\<lparr>company := None\<rparr>)"
  by (simp add: no_carrier_def berlin_hamburg_def parse_fields_fragment price_19_99 and_then_def
      flixbus_connection_def)



lemma parse_result_Some:
  "fst (parse_result g w s r) = Inr (Some c) \<Longrightarrow> parse_fields r = Inr c"
  by (auto simp: fst_parse_result split: sum.splits if_splits)

lemma parse_fields_nodes:
  assumes "parse_fields r = Inr c"
  shows "field_text path_departure path_date r = Inr (departure_date c)"
    "field_text path_departure path_time r = Inr (departure_time c)"
    "field_text path_departure path_stop r = Inr (departure_stop c)"
    "field_text path_duration path_trip_duration r = Inr (trip_duration c)"
    "field_text path_duration path_number_of_stops r = Inr (number_of_stops c)"
    "field_text path_arrival path_date r = Inr (arrival_date c)"
    "field_text path_arrival path_time r = Inr (arrival_time c)"
    "field_text path_arrival path_stop r = Inr (arrival_stop c)"
    "node_text (xpath0 path_company r) = Inr (company c)"
    "\<exists>node. xpath0 path_price r = Inr node \<and> price_of node = Inr (price c)"
  using assms
  unfolding parse_fields_def field_text_def node_text_def sub_node_def
  by (auto simp: and_then_def split: sum.splits)

lemma price_of_suffix:
  "price_of node = Inr p \<Longrightarrow> \<exists>x. p = format_2f x @ euro_suffix"
  by (auto simp: price_of_def and_then_def split: option.splits sum.splits)

lemma fst_find_const:
  assumes "\<forall>k. snapshots w k = doc"
    and "form w ''#From''" "form w ''#To''" "form w ''#When''" "form w ''.btn-warning''"
    and "str_ge d (today w)" "page_ready doc"
  shows "\<exists>s1. get_results w (create_browser_session SEARCH_PAGE False) a b d t =
                (Inr (cssselect ''div'' ''search-result'' doc), s1) \<and>
              fst (find_bus_connections g w a b d t) =
                fst (parse_all g w s1 (cssselect ''div'' ''search-result'' doc) [])"
proof -
  let ?s = "create_browser_session SEARCH_PAGE False"
  obtain r s1 where g: "get_results w ?s a b d t = (r, s1)"
    by (cases "get_results w ?s a b d t")
  have "r = Inr (cssselect ''div'' ''search-result'' doc)"
    using fst_get_results_const [OF assms(1), of ?s a b d t] g assms(2-7) by simp
  with g show ?thesis by (simp add: find_bus_connections_def)
qed

lemma fst_parse_all_Cons:
  "fst (parse_all g w s (r # rs) acc) =
     (case fst (parse_result g w s r) of
        Inl e \<Rightarrow> Inl e
      | Inr c \<Rightarrow> fst (parse_all g w (snd (parse_result g w s r)) rs (acc @ [c])))"
  by (cases "parse_result g w s r") (simp split: sum.split)

lemma world_of_simps [simp]:
  "form (world_of docs) sel" "snapshots (world_of docs) = docs"
  "today (world_of docs) = ''2026-11-04''" "probes (world_of docs) t = nat (2 * t)"
  by (simp_all add: world_of_def)

lemma date_ok: "str_ge ''2026-11-05'' ''2026-11-04''"
  by (simp add: str_ge_def)

lemma ready_flixbus: "page_ready (page [flixbus])" "page_ready (page [flixbus, bad_price])"
proof -
  show "page_ready (page [flixbus])"
    unfolding flixbus_def berlin_hamburg_def by (rule page_ready_fragments)
  show "page_ready (page [flixbus, bad_price])"
    unfolding flixbus_def bad_price_def berlin_hamburg_def page_ready_def cssselect_page2
    by (simp add: ready_body_def and_then_def item0_def fragment_def DELAY_MSG_REGEX_def)
qed

lemma cssselect_flixbus:
  "cssselect ''div'' ''search-result'' (page [flixbus]) = [flixbus]"
  "cssselect ''div'' ''search-result'' (page [flixbus, bad_price]) = [flixbus, bad_price]"
  unfolding flixbus_def bad_price_def berlin_hamburg_def
  by (rule cssselect_page1, rule cssselect_page2)

lemma find_world_ready:
  "fst (find_bus_connections module_init world_ready ''Berlin'' ''Hamburg'' ''2026-11-05'' 10) =
     Inr [Some flixbus_connection]"
proof -
  have "\<forall>k. snapshots world_ready k = page [flixbus]" by (simp add: world_ready_def)
  from fst_find_const [OF this _ _ _ _ _ ready_flixbus(1), of "''2026-11-05''" "''Berlin''" "''Hamburg''" 10 module_init]
  show ?thesis
    by (auto simp: world_ready_def date_ok cssselect_flixbus fst_parse_all_Cons fst_parse_result
        parse_fields_flixbus simp del: parse_all.simps(2))
qed

lemma find_world_bad:
  "fst (find_bus_connections module_init world_bad ''Berlin'' ''Hamburg'' ''2026-11-05'' 10) =
     Inl (BusliniensucheParsingError ValueError)"
proof -
  have "\<forall>k. snapshots world_bad k = page [flixbus, bad_price]" by (simp add: world_bad_def)
  from fst_find_const [OF this _ _ _ _ _ ready_flixbus(2), of "''2026-11-05''" "''Berlin''" "''Hamburg''" 10 module_init]
  show ?thesis
    by (auto simp: world_bad_def date_ok cssselect_flixbus fst_parse_all_Cons fst_parse_result
        parse_fields_flixbus parse_fields_bad_price module_init_def simp del: parse_all.simps(2))
qed

lemma el_text_flixbus: "el_text flixbus = Some '' ''"
  by (simp add: flixbus_def berlin_hamburg_def fragment_def)

lemma find_world_late:
  "find_bus_connections module_init world_late ''Berlin'' ''Hamburg'' ''2026-11-05'' 1 =
     (Inr [Some flixbus_connection],
      \<lparr>calls = [SessionNew, SetAttribute ''auto_load_images'' False, Visit SEARCH_PAGE,
                AtCss ''#From'', SetValue ''#From'' ''Berlin'', AtCss ''#To'',
                SetValue ''#To'' ''Hamburg'', AtCss ''#When'', SetValue ''#When'' ''2026-11-05'',
                AtCss ''.btn-warning'', Click ''.btn-warning'',
                Document, Render ''error.png'', Document, Render ''error.png'', Document,
                Document],
       ndocs = 4\<rparr>)"
  by (simp add: find_bus_connections_def get_results_def create_browser_session_def do_call_def
      fresh_def document_def results_are_ready_def world_late_def world_of_def str_ge_def
      ready_body_def and_then_def item0_def cssselect_page0 cssselect_flixbus(1) el_text_flixbus
      truthy_def parse_result_def parse_fields_flixbus DELAY_MSG_REGEX_def numeral_2_eq_2)

section \<open>The claims\<close>

text \<open>
  C1 (as amended). For every date that is less than today's ISO date in the string
  order, on a page that has the origin and destination fields, the call fails with
  \<open>AssertionError\<close>; by then the session has been created and has visited the search
  page, the origin and destination fields have been set and the date field has been
  looked up. The date field is not set, the search is not submitted and nothing is
  polled.
\<close>

theorem past_date_fails_after_form_access:
  assumes "str_lt d (today w)" "form w ''#From''" "form w ''#To''"
  shows "find_bus_connections g w a b d t =
           (Inl AssertionError,
            \<lparr>calls = [SessionNew, SetAttribute ''auto_load_images'' False, Visit SEARCH_PAGE,
                      AtCss ''#From'', SetValue ''#From'' a, AtCss ''#To'', SetValue ''#To'' b,
                      AtCss ''#When''],
             ndocs = 0\<rparr>)"
  using assms
  by (simp add: find_bus_connections_def get_results_def create_browser_session_def
      do_call_def fresh_def str_ge_def)

theorem past_date_fails_after_form_access_witness:
  "str_lt ''2026-11-03'' (today world_ready) \<and> form world_ready ''#From'' \<and>
   form world_ready ''#To'' \<and>
   find_bus_connections module_init world_ready ''Berlin'' ''Hamburg'' ''2026-11-03'' 10 =
     (Inl AssertionError,
      \<lparr>calls = [SessionNew, SetAttribute ''auto_load_images'' False, Visit SEARCH_PAGE,
                AtCss ''#From'', SetValue ''#From'' ''Berlin'', AtCss ''#To'',
                SetValue ''#To'' ''Hamburg'', AtCss ''#When''],
       ndocs = 0\<rparr>)"
proof -
  have h: "str_lt ''2026-11-03'' (today world_ready)" "form world_ready ''#From''"
          "form world_ready ''#To''"
    by (simp_all add: world_ready_def world_of_def)
  show ?thesis
    using h past_date_fails_after_form_access [OF h, of module_init "''Berlin''" "''Hamburg''" 10]
    by simp
qed

text \<open>
  The claim as stated fails: on 4 November 2026 a call for 3 November has acquired the
  session and set the origin field before it fails; eight collaborator calls are made.
\<close>

theorem past_date_touches_session_counterexample:
  "str_lt ''2026-11-03'' (today world_ready) \<and>
   fst (find_bus_connections module_init world_ready ''Berlin'' ''Hamburg'' ''2026-11-03'' 10) =
     Inl AssertionError \<and>
   SessionNew \<in> set (calls (snd (find_bus_connections module_init world_ready
      ''Berlin'' ''Hamburg'' ''2026-11-03'' 10))) \<and>
   SetValue ''#From'' ''Berlin'' \<in> set (calls (snd (find_bus_connections module_init
      world_ready ''Berlin'' ''Hamburg'' ''2026-11-03'' 10))) \<and>
   length (calls (snd (find_bus_connections module_init world_ready
      ''Berlin'' ''Hamburg'' ''2026-11-03'' 10))) = 8"
  by (simp add: find_bus_connections_def get_results_def create_browser_session_def
      do_call_def fresh_def str_ge_def world_ready_def world_of_def)

text \<open>
  C2. When the results have been fetched and the debugger flag is off, and one of the
  fragments is malformed (one of its ten sub-nodes cannot be located, or its price text
  is absent, blank or no number), the whole call raises \<open>BusliniensucheParsingError\<close>
  carrying the exception of the first malformed fragment; no list of records is
  returned, whatever the other fragments are.
\<close>

theorem malformed_fragment_aborts_call:
  assumes "get_results w (create_browser_session SEARCH_PAGE False) a b d t = (Inr rs, s1)"
    and "DEBUG g = False" and "\<exists>r\<in>set rs. malformed r"
  shows "\<exists>i e. i < length rs \<and> malformed (rs ! i) \<and> (\<forall>j<i. \<not> malformed (rs ! j)) \<and>
               parse_fields (rs ! i) = Inl e \<and>
               fst (find_bus_connections g w a b d t) = Inl (BusliniensucheParsingError e) \<and>
               (\<forall>cs. fst (find_bus_connections g w a b d t) \<noteq> Inr cs)"
proof -
  from assms(3) have "\<exists>r\<in>set rs. isl (parse_fields r)" by (simp add: malformed_iff)
  from parse_all_first_fault [OF assms(2) this, of w s1 "[]"] obtain i e where
    ie: "i < length rs" "parse_fields (rs ! i) = Inl e"
        "\<forall>j<i. \<not> isl (parse_fields (rs ! j))"
        "fst (parse_all g w s1 rs []) = Inl (BusliniensucheParsingError e)"
    by blast
  have f: "fst (find_bus_connections g w a b d t) = Inl (BusliniensucheParsingError e)"
    using assms(1) ie(4) by (simp add: find_bus_connections_def)
  have "malformed (rs ! i)" using ie(2) by (simp add: malformed_iff)
  moreover have "\<forall>j<i. \<not> malformed (rs ! j)" using ie(3) by (simp add: malformed_iff)
  ultimately show ?thesis using ie(1,2) f by (intro exI [of _ i] exI [of _ e]) simp
qed

theorem malformed_fragment_aborts_call_witness:
  "malformed bad_price \<and> \<not> malformed flixbus \<and>
   fst (find_bus_connections module_init world_bad ''Berlin'' ''Hamburg'' ''2026-11-05'' 10) =
     Inl (BusliniensucheParsingError ValueError)"
proof -
  have m: "malformed bad_price" "\<not> malformed flixbus"
    by (simp_all add: malformed_iff parse_fields_bad_price parse_fields_flixbus)
  have "\<forall>k. snapshots world_bad k = page [flixbus, bad_price]" by (simp add: world_bad_def)
  from fst_find_const [OF this _ _ _ _ _ ready_flixbus(2), of "''2026-11-05''" "''Berlin''" "''Hamburg''" 10 module_init]
  obtain s1 where g: "get_results world_bad (create_browser_session SEARCH_PAGE False)
      ''Berlin'' ''Hamburg'' ''2026-11-05'' 10 = (Inr [flixbus, bad_price], s1)"
    by (auto simp: world_bad_def date_ok cssselect_flixbus)
  have d: "DEBUG module_init = False" by (simp add: module_init_def)
  have ex: "\<exists>r\<in>set [flixbus, bad_price]. malformed r" using m by simp
  from malformed_fragment_aborts_call [OF g d ex] obtain i e where
    ie: "i < length [flixbus, bad_price]" "malformed ([flixbus, bad_price] ! i)"
        "parse_fields ([flixbus, bad_price] ! i) = Inl e"
        "fst (find_bus_connections module_init world_bad ''Berlin'' ''Hamburg'' ''2026-11-05'' 10) =
           Inl (BusliniensucheParsingError e)"
    by blast
  from ie(1,2) m(2) have "i = 1" by (cases i) auto
  with ie(3) have "e = ValueError" by (simp add: parse_fields_bad_price)
  with ie(4) m show ?thesis by simp
qed




text \<open>
  C4 (as amended). On every exit path of a call, whatever its arguments, the page and
  the module state, the session is acquired exactly once and never released: of the
  calls that create or close a session, the call makes \<open>SessionNew\<close> once and
  \<open>SessionClose\<close> not at all.
\<close>

theorem session_never_released:
  "filter (\<lambda>c. c = SessionNew \<or> c = SessionClose)
     (calls (snd (find_bus_connections g w a b d t))) = [SessionNew]"
proof -
  have "\<And>c. page_call c \<Longrightarrow> \<not> (c = SessionNew \<or> c = SessionClose)" by auto
  from filter_find_bus_connections [of "\<lambda>c. c = SessionNew \<or> c = SessionClose", OF this]
  show ?thesis by simp
qed

text \<open>
  The claim as stated fails: the call that times out on the loading page ends without
  closing its session.
\<close>

theorem session_left_open_counterexample:
  "fst (find_bus_connections module_init world_loading ''Berlin'' ''Hamburg'' ''2026-11-05'' 1) =
     Inl WaitTimeoutError \<and>
   SessionNew \<in> set (calls (snd (find_bus_connections module_init world_loading
      ''Berlin'' ''Hamburg'' ''2026-11-05'' 1))) \<and>
   SessionClose \<notin> set (calls (snd (find_bus_connections module_init world_loading
      ''Berlin'' ''Hamburg'' ''2026-11-05'' 1)))"
proof -
  let ?r = "find_bus_connections module_init world_loading ''Berlin'' ''Hamburg'' ''2026-11-05'' 1"
  have "\<And>c. page_call c \<Longrightarrow> \<not> (c = SessionNew \<or> c = SessionClose)" by auto
  from filter_find_bus_connections [of "\<lambda>c. c = SessionNew \<or> c = SessionClose", OF this]
  have f: "filter (\<lambda>c. c = SessionNew \<or> c = SessionClose) (calls (snd ?r)) = [SessionNew]"
    by simp
  have "set (filter (\<lambda>c. c = SessionNew \<or> c = SessionClose) (calls (snd ?r))) = {SessionNew}"
    by (simp only: f) simp
  then have m: "SessionNew \<in> set (calls (snd ?r))" "SessionClose \<notin> set (calls (snd ?r))"
    by auto
  have "\<forall>k\<le>probes world_loading 1.
          \<not> page_ready (snapshots world_loading (ndocs (create_browser_session SEARCH_PAGE False) + k))"
    by (simp add: world_loading_def world_of_def not_ready_loading)
  then have "fst (get_results world_loading (create_browser_session SEARCH_PAGE False)
                ''Berlin'' ''Hamburg'' ''2026-11-05'' 1) = Inl WaitTimeoutError"
    by (intro conjunct1 [OF get_results_timeout])
       (simp_all add: world_loading_def world_of_def str_ge_def)
  then have "fst ?r = Inl WaitTimeoutError"
    by (cases "get_results world_loading (create_browser_session SEARCH_PAGE False)
                ''Berlin'' ''Hamburg'' ''2026-11-05'' 1")
       (simp add: find_bus_connections_def)
  with m show ?thesis by simp
qed

text \<open>
  C5. When the search form is complete and the date is not in the past, and the ready
  predicate is true at none of the probes the clock allows within the timeout, the call
  fails with \<open>WaitTimeoutError\<close>, which is no \<open>BusliniensucheParsingError\<close>, and the
  last thing it does before raising is to render the page to \<open>error.png\<close>.
\<close>

theorem timeout_raises_after_snapshot:
  assumes "form w ''#From''" "form w ''#To''" "form w ''#When''" "form w ''.btn-warning''"
    and "str_ge d (today w)"
    and "\<forall>k\<le>probes w t. \<not> page_ready (snapshots w k)"
  shows "fst (find_bus_connections g w a b d t) = Inl WaitTimeoutError \<and>
         last (calls (snd (find_bus_connections g w a b d t))) = Render ''error.png'' \<and>
         (\<forall>e. fst (find_bus_connections g w a b d t) \<noteq> Inl (BusliniensucheParsingError e))"
proof -
  have "fst (get_results w (create_browser_session SEARCH_PAGE False) a b d t) = Inl WaitTimeoutError \<and>
        last (calls (snd (get_results w (create_browser_session SEARCH_PAGE False) a b d t))) = Render ''error.png''"
    using get_results_timeout [OF assms(1-5), of t "create_browser_session SEARCH_PAGE False" a b] assms(6)
    by simp
  then show ?thesis
    by (cases "get_results w (create_browser_session SEARCH_PAGE False) a b d t")
       (auto simp: find_bus_connections_def)
qed

theorem timeout_raises_after_snapshot_witness:
  "\<not> page_ready loading_page \<and> str_ge ''2026-11-05'' (today world_loading) \<and>
   fst (find_bus_connections module_init world_loading ''Berlin'' ''Hamburg'' ''2026-11-05'' 1) =
     Inl WaitTimeoutError \<and>
   last (calls (snd (find_bus_connections module_init world_loading
      ''Berlin'' ''Hamburg'' ''2026-11-05'' 1))) = Render ''error.png''"
proof -
  have f: "form world_loading ''#From''" "form world_loading ''#To''"
          "form world_loading ''#When''" "form world_loading ''.btn-warning''"
    by (simp_all add: world_loading_def world_of_def)
  have d: "str_ge ''2026-11-05'' (today world_loading)"
    by (simp add: world_loading_def world_of_def str_ge_def)
  have p: "\<forall>k\<le>probes world_loading 1. \<not> page_ready (snapshots world_loading k)"
    by (simp add: world_loading_def world_of_def not_ready_loading)
  show ?thesis
    using timeout_raises_after_snapshot [OF f d p, of module_init "''Berlin''" "''Hamburg''"]
          not_ready_loading d
    by simp
qed

text \<open>
  C6. On every page state the ready predicate returns a true value exactly when a
  results container is found and the text of the first one is there and does not
  contain the loading message; when no container is found, or the text of the first
  one is missing, the exception raised inside is caught and the predicate returns
  \<open>None\<close>, which counts as not ready.
\<close>

theorem ready_iff:
  "(truthy (fst (results_are_ready w s)) \<longleftrightarrow>
      (\<exists>r rest t. cssselect ''div'' ''search-result'' (snapshots w (ndocs s)) = r # rest \<and>
                   el_text r = Some t \<and> \<not> re_search DELAY_MSG_REGEX t)) \<and>
   ((cssselect ''div'' ''search-result'' (snapshots w (ndocs s)) = [] \<or>
     (\<exists>r rest. cssselect ''div'' ''search-result'' (snapshots w (ndocs s)) = r # rest \<and>
                el_text r = None))
    \<longrightarrow> fst (results_are_ready w s) = None \<and> \<not> truthy (fst (results_are_ready w s)))"
  by (auto simp: fst_results_are_ready truthy_def ready_body_def and_then_def item0_def
      split: sum.split list.split option.split)

theorem ready_iff_witness:
  "cssselect ''div'' ''search-result'' (snapshots world_empty (ndocs fresh)) = [] \<and>
   fst (results_are_ready world_empty fresh) = None \<and>
   truthy (fst (results_are_ready world_ready fresh)) \<and>
   \<not> truthy (fst (results_are_ready world_loading fresh))"
proof -
  have e: "cssselect ''div'' ''search-result'' (snapshots world_empty (ndocs fresh)) = []"
    by (simp add: world_empty_def world_of_def cssselect_page0)
  have n: "fst (results_are_ready world_empty fresh) = None"
    using e conjunct2 [OF ready_iff [of world_empty fresh]] by blast
  have "cssselect ''div'' ''search-result'' (snapshots world_ready (ndocs fresh)) = [flixbus] \<and>
        el_text flixbus = Some '' '' \<and> \<not> re_search DELAY_MSG_REGEX '' ''"
    by (simp add: world_ready_def world_of_def flixbus_def berlin_hamburg_def cssselect_page1)
       (simp add: fragment_def DELAY_MSG_REGEX_def)
  then have r: "truthy (fst (results_are_ready world_ready fresh))"
    using conjunct1 [OF ready_iff [of world_ready fresh]] by blast
  have "cssselect ''div'' ''search-result'' (snapshots world_loading (ndocs fresh)) =
          [Element ''div'' [''search-result''] (Some ''Lade Busverbindungen ...'') []]"
    by (simp add: world_loading_def world_of_def cssselect_loading)
  then have l: "\<not> truthy (fst (results_are_ready world_loading fresh))"
    using conjunct1 [OF ready_iff [of world_loading fresh]]
    by (simp add: DELAY_MSG_REGEX_def)
  from e n r l show ?thesis by simp
qed

text \<open>
  C7 (as amended). Record construction is all-or-nothing with respect to the sub-nodes:
  when \<open>parse_result\<close> returns a record, the fragment is not malformed, each of the
  nine text fields is the text of its located node as it stands (which is \<open>None\<close> for
  a node without text), and the price is a formatted number followed by the suffix, so
  never empty.
\<close>

theorem record_has_all_nodes_texts_verbatim:
  assumes "fst (parse_result g w s r) = Inr (Some c)"
  shows "\<not> malformed r \<and>
         field_text path_departure path_date r = Inr (departure_date c) \<and>
         field_text path_departure path_time r = Inr (departure_time c) \<and>
         field_text path_departure path_stop r = Inr (departure_stop c) \<and>
         field_text path_duration path_trip_duration r = Inr (trip_duration c) \<and>
         field_text path_duration path_number_of_stops r = Inr (number_of_stops c) \<and>
         field_text path_arrival path_date r = Inr (arrival_date c) \<and>
         field_text path_arrival path_time r = Inr (arrival_time c) \<and>
         field_text path_arrival path_stop r = Inr (arrival_stop c) \<and>
         node_text (xpath0 path_company r) = Inr (company c) \<and>
         (\<exists>x. price c = format_2f x @ euro_suffix) \<and> price c \<noteq> []"
proof -
  have p: "parse_fields r = Inr c" by (rule parse_result_Some [OF assms])
  then have nm: "\<not> malformed r" by (simp add: malformed_iff)
  from parse_fields_nodes(10) [OF p] obtain node where "price_of node = Inr (price c)" by blast
  from price_of_suffix [OF this] obtain x where x: "price c = format_2f x @ euro_suffix" by blast
  then have "price c \<noteq> []" by (simp add: euro_suffix_def)
  with nm x parse_fields_nodes(1-9) [OF p] show ?thesis by blast
qed

theorem record_has_all_nodes_texts_verbatim_witness:
  "fst (parse_result module_init world_ready fresh flixbus) = Inr (Some flixbus_connection) \<and>
   \<not> malformed flixbus \<and>
   field_text path_departure path_stop flixbus = Inr (Some ''Berlin ZOB'') \<and>
   node_text (xpath0 path_company flixbus) = Inr (Some ''FlixBus'')"
proof -
  have h: "fst (parse_result module_init world_ready fresh flixbus) = Inr (Some flixbus_connection)"
    by (simp add: fst_parse_result parse_fields_flixbus)
  from record_has_all_nodes_texts_verbatim [OF h] h show ?thesis
    by (simp add: flixbus_connection_def)
qed

text \<open>
  The claim as stated fails: a fragment whose carrier node has no text is parsed into a
  record whose \<open>company\<close> field is \<open>None\<close>.
\<close>

theorem empty_field_returned_counterexample:
  "fst (parse_result module_init world_ready fresh no_carrier) =
     Inr (Some (flixbus_connection\<lparr>company := None\<rparr>)) \<and>
   company (flixbus_connection\<lparr>company := None\<rparr>) = None"
  by (simp add: fst_parse_result parse_fields_no_carrier)

text \<open>
  C8. On a page that does not change, two calls with the same module state, search form,
  date of today and arguments return the same result, whatever their clocks allow; and
  a returned list has one entry per results container, in document order: the entry at
  each position is what \<open>parse_result\<close> makes of the container at that position.
\<close>

theorem replay_same_records_in_dom_order:
  assumes "\<forall>k. snapshots w1 k = doc" "\<forall>k. snapshots w2 k = doc"
    and "form w1 = form w2" "today w1 = today w2"
  shows "fst (find_bus_connections g w1 a b d t) = fst (find_bus_connections g w2 a b d t) \<and>
         (\<forall>cs. fst (find_bus_connections g w1 a b d t) = Inr cs \<longrightarrow>
               list_all2 parsed_as cs (cssselect ''div'' ''search-result'' doc))"
proof -
  let ?s = "create_browser_session SEARCH_PAGE False"
  obtain r1 s1 where g1: "get_results w1 ?s a b d t = (r1, s1)" by (cases "get_results w1 ?s a b d t")
  obtain r2 s2 where g2: "get_results w2 ?s a b d t = (r2, s2)" by (cases "get_results w2 ?s a b d t")
  have r12: "r1 = r2"
    using fst_get_results_const [OF assms(1), of ?s a b d t]
          fst_get_results_const [OF assms(2), of ?s a b d t] g1 g2 assms(3,4)
    by simp
  have eq: "fst (find_bus_connections g w1 a b d t) = fst (find_bus_connections g w2 a b d t)"
    using g1 g2 r12 fst_parse_all_indep [of g w1 s1 _ "[]" w2 s2]
    by (simp add: find_bus_connections_def split: sum.split)
  have ord: "list_all2 parsed_as cs (cssselect ''div'' ''search-result'' doc)"
    if h: "fst (find_bus_connections g w1 a b d t) = Inr cs" for cs
  proof (cases r1)
    case (Inl e)
    with g1 h show ?thesis by (simp add: find_bus_connections_def)
  next
    case (Inr rs)
    have "rs = cssselect ''div'' ''search-result'' doc"
      using fst_get_results_const [OF assms(1), of ?s a b d t] g1 Inr
      by (simp split: if_splits)
    moreover have "fst (parse_all g w1 s1 rs []) = Inr cs"
      using g1 Inr h by (simp add: find_bus_connections_def)
    ultimately show ?thesis using parse_all_order [of g w1 s1 rs "[]" cs] by auto
  qed
  from eq ord show ?thesis by blast
qed

theorem replay_same_records_in_dom_order_witness:
  "fst (find_bus_connections module_init world_ready ''Berlin'' ''Hamburg'' ''2026-11-05'' 10) =
     Inr [Some flixbus_connection] \<and>
   fst (find_bus_connections module_init (world_ready\<lparr>probes := \<lambda>t. 0\<rparr>)
          ''Berlin'' ''Hamburg'' ''2026-11-05'' 10) = Inr [Some flixbus_connection] \<and>
   list_all2 parsed_as [Some flixbus_connection]
     (cssselect ''div'' ''search-result'' (page [flixbus]))"
proof -
  let ?w2 = "world_ready\<lparr>probes := \<lambda>t. 0\<rparr>"
  have s: "\<forall>k. snapshots world_ready k = page [flixbus]" "\<forall>k. snapshots ?w2 k = page [flixbus]"
    "form world_ready = form ?w2" "today world_ready = today ?w2"
    by (simp_all add: world_ready_def)
  from replay_same_records_in_dom_order [OF s, of module_init "''Berlin''" "''Hamburg''" "''2026-11-05''" 10]
       find_world_ready
  show ?thesis by simp
qed

text \<open>
  C9. At every probe at which no results container is found, or the first one has no
  text, the ready predicate renders the page to \<open>error.png\<close>; and there is a call that
  returns its records although \<open>error.png\<close> was written on the way.
\<close>

theorem snapshot_written_while_polling:
  "((cssselect ''div'' ''search-result'' (snapshots w (ndocs s)) = [] \<or>
     (\<exists>r rest. cssselect ''div'' ''search-result'' (snapshots w (ndocs s)) = r # rest \<and>
                el_text r = None)) \<longrightarrow>
    calls (snd (results_are_ready w s)) = calls s @ [Document, Render ''error.png'']) \<and>
   (\<exists>w' a b d t cs.
      fst (find_bus_connections module_init w' a b d t) = Inr cs \<and>
      Render ''error.png'' \<in> set (calls (snd (find_bus_connections module_init w' a b d t))))"
proof
  show "(cssselect ''div'' ''search-result'' (snapshots w (ndocs s)) = [] \<or>
     (\<exists>r rest. cssselect ''div'' ''search-result'' (snapshots w (ndocs s)) = r # rest \<and>
                el_text r = None)) \<longrightarrow>
    calls (snd (results_are_ready w s)) = calls s @ [Document, Render ''error.png'']"
    by (auto simp: calls_results_are_ready ready_body_def and_then_def item0_def)
  have "fst (find_bus_connections module_init world_late ''Berlin'' ''Hamburg'' ''2026-11-05'' 1) =
          Inr [Some flixbus_connection] \<and>
        Render ''error.png'' \<in> set (calls (snd (find_bus_connections module_init world_late
          ''Berlin'' ''Hamburg'' ''2026-11-05'' 1)))"
    by (simp add: find_world_late)
  then show "\<exists>w' a b d t cs.
      fst (find_bus_connections module_init w' a b d t) = Inr cs \<and>
      Render ''error.png'' \<in> set (calls (snd (find_bus_connections module_init w' a b d t)))"
    by blast
qed

theorem snapshot_written_while_polling_witness:
  "cssselect ''div'' ''search-result'' (snapshots world_empty (ndocs fresh)) = [] \<and>
   calls (snd (results_are_ready world_empty fresh)) = [Document, Render ''error.png'']"
proof -
  have e: "cssselect ''div'' ''search-result'' (snapshots world_empty (ndocs fresh)) = []"
    by (simp add: world_empty_def world_of_def cssselect_page0)
  from conjunct1 [OF snapshot_written_while_polling [of world_empty fresh]] e
  show ?thesis by (simp add: fresh_def)
qed

text \<open>
  C10. Through \<open>run_cli\<close>, started on the module as it is loaded, the debugger is never
  entered: the module's \<open>DEBUG\<close> is \<open>False\<close> before and after, the \<open>--debug\<close> option
  only binds the local name, and whenever the results have a malformed fragment the run
  ends with \<open>BusliniensucheParsingError\<close>.
\<close>

theorem debugger_unreachable_from_cli:
  "SetTrace \<notin> set (calls (fst (snd (run_cli module_init w args)))) \<and>
   fst (snd (snd (run_cli module_init w args))) = module_init \<and>
   DEBUG module_init = False \<and>
   (arg_debug args \<longrightarrow> local_DEBUG (snd (snd (snd (run_cli module_init w args)))) = Some True) \<and>
   (\<forall>rs s1. get_results w (create_browser_session SEARCH_PAGE False) (arg_origin args)
               (arg_destination args) (arg_date args) (arg_timeout args) = (Inr rs, s1) \<and>
             (\<exists>r\<in>set rs. malformed r) \<longrightarrow>
             (\<exists>e. fst (run_cli module_init w args) = Inl (BusliniensucheParsingError e)))"
proof -
  let ?f = "find_bus_connections module_init w (arg_origin args) (arg_destination args)
              (arg_date args) (arg_timeout args)"
  have d: "DEBUG module_init = False" by (simp add: module_init_def)
  have r: "fst (snd (run_cli module_init w args)) = snd ?f"
          "fst (snd (snd (run_cli module_init w args))) = module_init"
          "fst ?f = Inl e \<Longrightarrow> fst (run_cli module_init w args) = Inl e" for e
    by (cases ?f; cases "fst ?f"; simp add: run_cli_def Let_def)+
  have "\<And>c. page_call c \<Longrightarrow> \<not> c = SetTrace" by auto
  from filter_find_bus_connections [of "\<lambda>c. c = SetTrace" module_init, OF this]
  have "filter (\<lambda>c. c = SetTrace) (calls (snd ?f)) = []" using d by simp
  then have a: "SetTrace \<notin> set (calls (fst (snd (run_cli module_init w args))))"
    by (auto simp: r(1) filter_empty_conv)
  have l: "arg_debug args \<longrightarrow>
             local_DEBUG (snd (snd (snd (run_cli module_init w args)))) = Some True"
    by (cases ?f; cases "fst ?f"; simp add: run_cli_def Let_def)
  have p: "\<exists>e. fst (run_cli module_init w args) = Inl (BusliniensucheParsingError e)"
    if "get_results w (create_browser_session SEARCH_PAGE False) (arg_origin args)
          (arg_destination args) (arg_date args) (arg_timeout args) = (Inr rs, s1)"
       "\<exists>r\<in>set rs. malformed r" for rs s1
  proof -
    from that(2) have "\<exists>r\<in>set rs. isl (parse_fields r)" by (simp add: malformed_iff)
    from parse_all_first_fault [OF d this, of w s1 "[]"] obtain e where
      "fst (parse_all module_init w s1 rs []) = Inl (BusliniensucheParsingError e)" by blast
    then have "fst ?f = Inl (BusliniensucheParsingError e)"
      using that(1) by (simp add: find_bus_connections_def)
    from r(3) [OF this] show ?thesis by blast
  qed
  from a r(2) d l p show ?thesis by blast
qed

theorem debugger_unreachable_from_cli_witness:
  "arg_debug \<lparr>arg_debug = True, arg_timeout = 10, arg_origin = ''Berlin'',
               arg_destination = ''Hamburg'', arg_date = ''2026-11-05''\<rparr> \<and>
   malformed bad_price \<and>
   fst (run_cli module_init world_bad
         \<lparr>arg_debug = True, arg_timeout = 10, arg_origin = ''Berlin'',
          arg_destination = ''Hamburg'', arg_date = ''2026-11-05''\<rparr>) =
     Inl (BusliniensucheParsingError ValueError) \<and>
   local_DEBUG (snd (snd (snd (run_cli module_init world_bad
         \<lparr>arg_debug = True, arg_timeout = 10, arg_origin = ''Berlin'',
          arg_destination = ''Hamburg'', arg_date = ''2026-11-05''\<rparr>)))) = Some True \<and>
   DEBUG (fst (snd (snd (run_cli module_init world_bad
         \<lparr>arg_debug = True, arg_timeout = 10, arg_origin = ''Berlin'',
          arg_destination = ''Hamburg'', arg_date = ''2026-11-05''\<rparr>)))) = False"
proof -
  let ?a = "\<lparr>arg_debug = True, arg_timeout = 10, arg_origin = ''Berlin'',
             arg_destination = ''Hamburg'', arg_date = ''2026-11-05''\<rparr>"
  have m: "malformed bad_price"
    by (simp add: malformed_iff parse_fields_bad_price)
  have f: "fst (run_cli module_init world_bad ?a) = Inl (BusliniensucheParsingError ValueError)"
    using find_world_bad
    by (cases "find_bus_connections module_init world_bad ''Berlin'' ''Hamburg'' ''2026-11-05'' 10")
       (simp add: run_cli_def Let_def)
  from debugger_unreachable_from_cli [of world_bad ?a] m f show ?thesis by simp
qed

end
